theory Spec2Isabelle
  imports Main
begin

section \<open>JavaScript values\<close>

text \<open>
  The parser of \<^verbatim>\<open>simple_parser.js\<close> is embedded function by function. Strings are lists
  of characters read as ASCII code units. A JavaScript expression that may evaluate to
  \<^verbatim>\<open>undefined\<close> or \<^verbatim>\<open>null\<close> has the type \<open>'a js\<close>; a call that may throw has a
  result of type \<open>jsError + 'a\<close>.
\<close>

datatype 'a js = Undefined | Null | Val 'a

datatype jsError = TypeError

text \<open>\<^verbatim>\<open>class GameObject { constructor(name) { this.name = name; } }\<close>\<close>

datatype gameObject = GameObject (name: "string list")

text \<open>What a symbol resolver yields and an action receives: a string or a \<open>GameObject\<close>.\<close>

datatype val = Str string | Obj gameObject

text \<open>Truthiness of a string-or-null value: \<^verbatim>\<open>undefined\<close>, \<^verbatim>\<open>null\<close> and \<^verbatim>\<open>''\<close> are falsy.\<close>

definition truthy :: "string js \<Rightarrow> bool" where
  "truthy v = (case v of Val s \<Rightarrow> s \<noteq> [] | _ \<Rightarrow> False)"

text \<open>\<^verbatim>\<open>Array.prototype.includes\<close> on an array of strings.\<close>

definition arrayIncludes :: "string list \<Rightarrow> string js \<Rightarrow> bool" where
  "arrayIncludes xs v = (case v of Val x \<Rightarrow> x \<in> set xs | _ \<Rightarrow> False)"

text \<open>\<^verbatim>\<open>Array.prototype.join\<close> on an array of strings.\<close>

fun join :: "string \<Rightarrow> string list \<Rightarrow> string" where
  "join sep [] = []"
| "join sep [w] = w"
| "join sep (w # v # ws) = w @ sep @ join sep (v # ws)"

section \<open>Constants, tokens and token lists\<close>

definition TT_WORD :: string where
  "TT_WORD = '':word:''"

text \<open>\<^verbatim>\<open>ARTICLES = 'a|an|the'\<close>: the alternatives of the regular expression, in order.\<close>

definition ARTICLES :: "string list" where
  "ARTICLES = [''a'', ''an'', ''the'']"

text \<open>\<^verbatim>\<open>class Token { constructor(type, value) }\<close>; the value is a word or \<^verbatim>\<open>null\<close>.\<close>

datatype token = Token (tok_type: string) (tok_value: "string js")

text \<open>\<^verbatim>\<open>class TokenList\<close>: the array and the mutable index, which the constructor sets to -1.\<close>

record 'a tokenList =
  tokens :: "'a list"
  index :: int

definition TokenList :: "'a list \<Rightarrow> 'a tokenList" where
  "TokenList ts = \<lparr>tokens = ts, index = -1\<rparr>"

text \<open>
  \<^verbatim>\<open>currentToken\<close> returns \<^verbatim>\<open>this.tokens[this.index]\<close> when the index is below the length
  (which is \<^verbatim>\<open>undefined\<close> for a negative index) and \<^verbatim>\<open>null\<close> otherwise.
\<close>

definition currentToken :: "'a tokenList \<Rightarrow> 'a js" where
  "currentToken this =
     (if index this < int (length (tokens this))
      then (if 0 \<le> index this then Val (tokens this ! nat (index this)) else Undefined)
      else Null)"

definition nextToken :: "'a tokenList \<Rightarrow> 'a js \<times> 'a tokenList" where
  "nextToken this = (let this' = this\<lparr>index := index this + 1\<rparr> in (currentToken this', this'))"

definition lookAhead :: "'a tokenList \<Rightarrow> 'a js \<times> 'a tokenList" where
  "lookAhead this =
     (let (nt, this') = nextToken this in (nt, this'\<lparr>index := index this' - 1\<rparr>))"

section \<open>Character classes and string helpers\<close>

text \<open>The class \<^verbatim>\<open>\s\<close> and the characters removed by \<^verbatim>\<open>trim\<close>: tab, LF, VT, FF, CR, space.\<close>

definition isSpace :: "char \<Rightarrow> bool" where
  "isSpace c = (c \<in> set [CHR 0x09, CHR 0x0A, CHR 0x0B, CHR 0x0C, CHR 0x0D, CHR 0x20])"

text \<open>The line terminators, which \<^verbatim>\<open>.\<close> does not match.\<close>

definition isLineTerminator :: "char \<Rightarrow> bool" where
  "isLineTerminator c = (c \<in> set [CHR 0x0A, CHR 0x0D])"

text \<open>The class \<^verbatim>\<open>[a-z]\<close>.\<close>

definition isLowerLetter :: "char \<Rightarrow> bool" where
  "isLowerLetter c = (let n = (of_char c :: nat) in 97 \<le> n \<and> n \<le> 122)"

definition lowerChar :: "char \<Rightarrow> char" where
  "lowerChar c =
     (let n = (of_char c :: nat) in if 65 \<le> n \<and> n \<le> 90 then char_of (n + 32) else c)"

definition toLowerCase :: "string \<Rightarrow> string" where
  "toLowerCase s = map lowerChar s"

definition trim :: "string \<Rightarrow> string" where
  "trim s = rev (dropWhile isSpace (rev (dropWhile isSpace s)))"

text \<open>\<^verbatim>\<open>String.prototype.split\<close> with a one-character separator; \<^verbatim>\<open>''.split(' ')\<close> is \<^verbatim>\<open>['']\<close>.\<close>

fun splitOn :: "char \<Rightarrow> string \<Rightarrow> string list" where
  "splitOn sep [] = [[]]"
| "splitOn sep (c # cs) =
     (if c = sep then [] # splitOn sep cs
      else (case splitOn sep cs of
              [] \<Rightarrow> [[c]]
            | w # ws \<Rightarrow> (c # w) # ws))"

section \<open>tokenizeInputString\<close>

text \<open>
  The regular expression \<^verbatim>\<open>\s+(a|an|the)\s+\<close> tried at the start of a string. The first
  \<^verbatim>\<open>\s+\<close> is greedy and takes the whole run of whitespace (giving a character back
  never helps, since no alternative starts with whitespace); the alternatives are tried
  in order, each one kept only if whitespace follows it; the last \<^verbatim>\<open>\s+\<close> takes the
  whole run that follows. The result is the text after the match.
\<close>

fun matchAlternative :: "string list \<Rightarrow> string \<Rightarrow> string option" where
  "matchAlternative [] s = None"
| "matchAlternative (w # ws) s =
     (let r = drop (length w) s in
      if take (length w) s = w \<and> r \<noteq> [] \<and> isSpace (hd r) then Some r
      else matchAlternative ws s)"

definition matchArticles :: "string \<Rightarrow> string option" where
  "matchArticles s =
     (if s \<noteq> [] \<and> isSpace (hd s)
      then (case matchAlternative ARTICLES (dropWhile isSpace s) of
              None \<Rightarrow> None
            | Some r \<Rightarrow> Some (dropWhile isSpace r))
      else None)"

lemma matchAlternative_length:
  "matchAlternative ws s = Some r \<Longrightarrow> length r \<le> length s"
  by (induction ws) (auto simp: Let_def split: if_splits)

lemma matchArticles_length:
  assumes "matchArticles s = Some r"
  shows "length r < length s"
proof -
  from assms obtain c cs where s: "s = c # cs" and sp: "isSpace c"
    by (cases s) (auto simp: matchArticles_def split: if_splits)
  from assms s sp obtain r'
    where m: "matchAlternative ARTICLES (dropWhile isSpace cs) = Some r'"
      and r: "r = dropWhile isSpace r'"
    by (auto simp: matchArticles_def split: option.splits)
  have "length r \<le> length r'"
    using r by (simp add: length_dropWhile_le)
  also have "\<dots> \<le> length (dropWhile isSpace cs)"
    using m by (rule matchAlternative_length)
  also have "\<dots> \<le> length cs"
    by (simp add: length_dropWhile_le)
  finally show ?thesis
    using s by simp
qed

text \<open>
  \<^verbatim>\<open>replace(articlesRegEx, ' ')\<close> with the \<^verbatim>\<open>g\<close> flag: scan from the left; where the
  expression matches, emit one space and go on after the match, otherwise copy the
  character.
\<close>

function replaceArticles :: "string \<Rightarrow> string" where
  "replaceArticles [] = []"
| "replaceArticles (c # cs) =
     (case matchArticles (c # cs) of
        Some r \<Rightarrow> CHR '' '' # replaceArticles r
      | None \<Rightarrow> c # replaceArticles cs)"
  by pat_completeness auto
termination
  by (relation "measure length") (auto dest: matchArticles_length)

text \<open>\<^verbatim>\<open>replace(/\s+/g, ' ')\<close>: every maximal run of whitespace becomes one space.\<close>

function collapseSpaces :: "string \<Rightarrow> string" where
  "collapseSpaces [] = []"
| "collapseSpaces (c # cs) =
     (if isSpace c then CHR '' '' # collapseSpaces (dropWhile isSpace cs)
      else c # collapseSpaces cs)"
  by pat_completeness auto
termination
  by (relation "measure length") (auto simp: length_dropWhile_le less_Suc_eq_le)

definition tokenizeInputString :: "string \<Rightarrow> string list" where
  "tokenizeInputString str =
     splitOn CHR '' '' (collapseSpaces (replaceArticles (toLowerCase (trim str))))"

section \<open>tokenizeRule\<close>

text \<open>
  The first alternative of \<^verbatim>\<open>/".+?"|\S+/g\<close> at the start of a string: a double quote, at
  least one character that is not a line terminator, then lazily up to the first double
  quote that follows. \<open>lazyUntilQuote\<close> gives the text up to and including that quote,
  and the rest.
\<close>

fun lazyUntilQuote :: "string \<Rightarrow> (string \<times> string) option" where
  "lazyUntilQuote [] = None"
| "lazyUntilQuote (c # cs) =
     (if c = CHR 0x22 then Some ([c], cs)
      else if isLineTerminator c then None
      else (case lazyUntilQuote cs of
              None \<Rightarrow> None
            | Some (m, r) \<Rightarrow> Some (c # m, r)))"

fun matchQuoted :: "string \<Rightarrow> (string \<times> string) option" where
  "matchQuoted (q # c # cs) =
     (if q = CHR 0x22 \<and> \<not> isLineTerminator c
      then (case lazyUntilQuote cs of
              None \<Rightarrow> None
            | Some (m, r) \<Rightarrow> Some (q # c # m, r))
      else None)"
| "matchQuoted s = None"

lemma lazyUntilQuote_length:
  "lazyUntilQuote s = Some (m, r) \<Longrightarrow> length r < length s"
  by (induction s arbitrary: m) (auto split: if_splits option.splits)

lemma matchQuoted_length:
  "matchQuoted s = Some (m, r) \<Longrightarrow> length r < length s"
  by (cases s rule: matchQuoted.cases)
    (auto split: if_splits option.splits dest: lazyUntilQuote_length)

text \<open>
  \<^verbatim>\<open>rule.match(/".+?"|\S+/g)\<close>: all matches from left to right, the quoted alternative
  first, then a maximal run of non-whitespace; whitespace is skipped. The list is empty
  where JavaScript returns \<^verbatim>\<open>null\<close>.
\<close>

function matchRuleParts :: "string \<Rightarrow> string list" where
  "matchRuleParts [] = []"
| "matchRuleParts (c # cs) =
     (case matchQuoted (c # cs) of
        Some (m, r) \<Rightarrow> m # matchRuleParts r
      | None \<Rightarrow>
          if isSpace c then matchRuleParts cs
          else takeWhile (\<lambda>x. \<not> isSpace x) (c # cs)
                 # matchRuleParts (dropWhile (\<lambda>x. \<not> isSpace x) cs))"
  by pat_completeness auto
termination
  by (relation "measure length")
    (auto simp: length_dropWhile_le less_Suc_eq_le dest: matchQuoted_length)

text \<open>\<^verbatim>\<open>part.match(/[a-z]+/g)\<close>: the maximal runs of lower-case letters.\<close>

function matchLowerWords :: "string \<Rightarrow> string list" where
  "matchLowerWords [] = []"
| "matchLowerWords (c # cs) =
     (if isLowerLetter c
      then (c # takeWhile isLowerLetter cs) # matchLowerWords (dropWhile isLowerLetter cs)
      else matchLowerWords cs)"
  by pat_completeness auto
termination
  by (relation "measure length") (auto simp: length_dropWhile_le less_Suc_eq_le)

text \<open>
  The loop over the parts. A part that starts with a double quote and holds no
  lower-case letter makes \<^verbatim>\<open>words\<close> \<^verbatim>\<open>null\<close>, and iterating over it throws.
\<close>

fun partTokens :: "string list \<Rightarrow> jsError + token list" where
  "partTokens [] = Inr []"
| "partTokens (part # parts) =
     (if hd part = CHR 0x22
      then (case matchLowerWords part of
              [] \<Rightarrow> Inl TypeError
            | words \<Rightarrow>
                (case partTokens parts of
                   Inl e \<Rightarrow> Inl e
                 | Inr ts \<Rightarrow> Inr (map (\<lambda>word. Token TT_WORD (Val word)) words @ ts)))
      else (case partTokens parts of
              Inl e \<Rightarrow> Inl e
            | Inr ts \<Rightarrow> Inr (Token part Null # ts)))"

definition tokenizeRule :: "string \<Rightarrow> jsError + token list" where
  "tokenizeRule rule =
     (let ruleParts = matchRuleParts rule in
      if ruleParts = [] then Inr [] else partTokens ruleParts)"

section \<open>The world and the symbol resolvers\<close>

definition getGameObjectsFromCurrentRoom :: "gameObject list" where
  "getGameObjectsFromCurrentRoom =
     [GameObject [''old'', ''rusty'', ''key''],
      GameObject [''old'', ''man''],
      GameObject [''desk''],
      GameObject [''big'', ''crate''],
      GameObject [''small'', ''crate'']]"

text \<open>The object \<^verbatim>\<open>{result: ..., error: ...}\<close> that a resolver returns.\<close>

record parseResult =
  result :: "val js"
  error :: "string js"

text \<open>
  A resolver receives the input \<open>TokenList\<close> by reference and may move its index: the
  model returns the list as the resolver leaves it.
\<close>

type_synonym resolver = "string tokenList \<Rightarrow> parseResult \<times> string tokenList"

text \<open>
  The inner \<^verbatim>\<open>while (inputTokens.currentToken())\<close> loop of \<open>parseSingle\<close>: it stops at a
  falsy current token or at the first word that the name does not include.
\<close>

function scoreLoop :: "string list \<Rightarrow> string tokenList \<Rightarrow> int \<Rightarrow> int \<times> string tokenList" where
  "scoreLoop objectName inputTokens matchScore =
     (if truthy (currentToken inputTokens)
      then (if arrayIncludes objectName (currentToken inputTokens)
            then scoreLoop objectName (snd (nextToken inputTokens)) (matchScore + 1)
            else (matchScore, inputTokens))
      else (matchScore, inputTokens))"
  by pat_completeness auto
termination
  by (relation "measure (\<lambda>(n, t, m). nat (int (length (tokens t)) - index t))")
    (auto simp: truthy_def currentToken_def nextToken_def Let_def split: if_splits)

text \<open>
  The loop over the game objects, carrying \<open>bestMatch\<close> and \<open>bestMatchScore\<close>. Class
  \<open>GameObject\<close> defines no \<open>parseName\<close>, so \<open>matchScore\<close> is still -1 when it is
  tested and the default scoring always runs.
\<close>

fun scoreObjects ::
  "int \<Rightarrow> gameObject list \<Rightarrow> string tokenList \<Rightarrow> (gameObject \<times> int) list \<Rightarrow> int
    \<Rightarrow> string tokenList \<times> (gameObject \<times> int) list \<times> int" where
  "scoreObjects startIndex [] inputTokens bestMatch bestMatchScore =
     (inputTokens, bestMatch, bestMatchScore)"
| "scoreObjects startIndex (g # gs) inputTokens bestMatch bestMatchScore =
     (let (matchScore, inputTokens') = scoreLoop (name g) (inputTokens\<lparr>index := startIndex\<rparr>) 0
      in if matchScore > 0
         then (if matchScore = bestMatchScore
               then scoreObjects startIndex gs inputTokens'
                      (bestMatch @ [(g, index inputTokens')]) bestMatchScore
               else if matchScore > bestMatchScore
               then scoreObjects startIndex gs inputTokens'
                      [(g, index inputTokens')] matchScore
               else scoreObjects startIndex gs inputTokens' bestMatch bestMatchScore)
         else scoreObjects startIndex gs inputTokens' bestMatch bestMatchScore)"

text \<open>\<open>parseSingle\<close> over a given list of game objects.\<close>

definition parseSingleIn :: "gameObject list \<Rightarrow> resolver" where
  "parseSingleIn gameObjects inputTokens =
     (let startIndex = index inputTokens;
          (inputTokens', bestMatch, bestMatchScore) =
             scoreObjects startIndex gameObjects inputTokens [] 0
      in if bestMatchScore > 0
         then (if length bestMatch = 1
               then (\<lparr>result = Val (Obj (fst (bestMatch ! 0))), error = Null\<rparr>,
                     inputTokens'\<lparr>index := snd (bestMatch ! 0)\<rparr>)
               else (\<lparr>result = Null, error = Val ''multiple objects found''\<rparr>, inputTokens'))
         else (\<lparr>result = Null, error = Val ''no objects found''\<rparr>, inputTokens'))"

definition parseSingle :: resolver where
  "parseSingle = parseSingleIn getGameObjectsFromCurrentRoom"

text \<open>The inner \<^verbatim>\<open>for\<close> loop of \<open>parseDanceStyle\<close>, with the iterations that are left.\<close>

fun collectDanceWords ::
  "nat \<Rightarrow> string tokenList \<Rightarrow> string list \<Rightarrow> string list \<times> string tokenList" where
  "collectDanceWords 0 inputTokens danceWords = (danceWords, inputTokens)"
| "collectDanceWords (Suc n) inputTokens danceWords =
     (case currentToken inputTokens of
        Val w \<Rightarrow>
          if w = [] then (danceWords, inputTokens)
          else collectDanceWords n (snd (nextToken inputTokens)) (danceWords @ [w])
      | _ \<Rightarrow> (danceWords, inputTokens))"

fun tryDances :: "int \<Rightarrow> string list \<Rightarrow> resolver" where
  "tryDances startIndex [] inputTokens =
     (\<lparr>result = Null, error = Val ''I don't know that dance''\<rparr>,
      inputTokens\<lparr>index := startIndex\<rparr>)"
| "tryDances startIndex (dance # dances) inputTokens =
     (let splitDance = splitOn CHR '' '' dance;
          (danceWords, inputTokens') =
             collectDanceWords (length splitDance) (inputTokens\<lparr>index := startIndex\<rparr>) []
      in if join '' '' danceWords = dance
         then (\<lparr>result = Val (Str dance), error = Null\<rparr>, inputTokens')
         else tryDances startIndex dances inputTokens')"

definition parseDanceStyle :: resolver where
  "parseDanceStyle inputTokens =
     tryDances (index inputTokens) [''waltz'', ''tango'', ''funky chicken''] inputTokens"

definition tokenParsingFunctionMap :: "string \<rightharpoonup> resolver" where
  "tokenParsingFunctionMap =
     [''single'' \<mapsto> parseSingle, ''dance_style'' \<mapsto> parseDanceStyle]"

section \<open>Actions and verbs\<close>

text \<open>
  An action is called with the spread parameter list; a parameter that is not passed
  is \<^verbatim>\<open>undefined\<close>. Reading \<^verbatim>\<open>.name\<close> of \<^verbatim>\<open>undefined\<close> or \<^verbatim>\<open>null\<close> throws, and so does
  \<^verbatim>\<open>.join\<close> on the \<^verbatim>\<open>undefined\<close> name of a string.
\<close>

type_synonym action = "val js list \<Rightarrow> jsError + val js"

definition argument :: "val js list \<Rightarrow> nat \<Rightarrow> val js" where
  "argument args i = (if i < length args then args ! i else Undefined)"

text \<open>\<^verbatim>\<open>x.name.join(' ')\<close>\<close>

definition nameJoin :: "val js \<Rightarrow> jsError + string" where
  "nameJoin x = (case x of Val (Obj g) \<Rightarrow> Inr (join '' '' (name g)) | _ \<Rightarrow> Inl TypeError)"

text \<open>The string that a template literal substitutes for a value.\<close>

definition templateString :: "val js \<Rightarrow> string" where
  "templateString x =
     (case x of
        Undefined \<Rightarrow> ''undefined''
      | Null \<Rightarrow> ''null''
      | Val (Str s) \<Rightarrow> s
      | Val (Obj g) \<Rightarrow> ''[object Object]'')"

definition actionTake :: action where
  "actionTake args =
     (case nameJoin (argument args 0) of
        Inl e \<Rightarrow> Inl e
      | Inr object \<Rightarrow> Inr (Val (Str (''You take the '' @ object))))"

definition actionTakeFrom :: action where
  "actionTakeFrom args =
     (case nameJoin (argument args 0) of
        Inl e \<Rightarrow> Inl e
      | Inr object \<Rightarrow>
          (case nameJoin (argument args 1) of
             Inl e \<Rightarrow> Inl e
           | Inr container \<Rightarrow>
               Inr (Val (Str (''You take the '' @ object @ '' from the '' @ container)))))"

definition actionGive :: action where
  "actionGive args =
     (case nameJoin (argument args 1) of
        Inl e \<Rightarrow> Inl e
      | Inr object \<Rightarrow>
          (case nameJoin (argument args 0) of
             Inl e \<Rightarrow> Inl e
           | Inr recipient \<Rightarrow>
               Inr (Val (Str (''You give the '' @ object @ '' to the '' @ recipient)))))"

text \<open>\<open>actionGiveReversed\<close> calls \<open>actionGive\<close> and returns nothing.\<close>

definition actionGiveReversed :: action where
  "actionGiveReversed args =
     (case actionGive [argument args 1, argument args 0] of
        Inl e \<Rightarrow> Inl e
      | Inr v \<Rightarrow> Inr Undefined)"

definition actionDance :: action where
  "actionDance args = Inr (Val (Str ''You flail around wildly. Everyone judges you.''))"

definition actionDanceWithStyle :: action where
  "actionDanceWithStyle args =
     Inr (Val (Str (''You dance the '' @ templateString (argument args 0) @ '' very well'')))"

definition actionPut :: action where
  "actionPut args =
     (case nameJoin (argument args 0) of
        Inl e \<Rightarrow> Inl e
      | Inr object \<Rightarrow>
          (case nameJoin (argument args 1) of
             Inl e \<Rightarrow> Inl e
           | Inr surface \<Rightarrow>
               Inr (Val (Str (''You put the '' @ object @ '' on the '' @ surface)))))"

text \<open>
  \<^verbatim>\<open>class Verb\<close>: the synonyms and the \<open>Map\<close> from rule strings to actions, as the list
  of its entries in insertion order.
\<close>

datatype verb = Verb (verb_name: "string list") (ruleActionMap: "(string \<times> action) list")

definition verbs :: "verb list" where
  \<open>verbs =
     [Verb [''give'']
        [(''single single'', actionGive),
         (''single "to" single'', actionGiveReversed)],
      Verb [''pick'']
        [(''"up" single'', actionTake),
         (''"up" single "on" single'', actionTakeFrom)],
      Verb [''dance'']
        [('''', actionDance),
         (''dance_style'', actionDanceWithStyle)],
      Verb [''put'', ''place'']
        [(''single "on" single'', actionPut)],
      Verb [''gain'']
        [(''"possession of" single'', actionTake)]]\<close>

section \<open>parse\<close>

text \<open>The local variables of one pass of the loop over the rules of a verb.\<close>

record attempt =
  ruleTokens :: "token tokenList"
  inputTokens :: "string tokenList"
  actionParameters :: "val js list"

text \<open>
  The body of \<^verbatim>\<open>while (ruleTokens.nextToken() !== null)\<close> for the rule token that
  \<open>nextToken\<close> returned: it either leaves the loop by \<^verbatim>\<open>break\<close> or goes on to the
  next evaluation of the loop condition.
\<close>

datatype 'a loopExit = Continue 'a | Break 'a

definition ruleStep :: "(string \<rightharpoonup> resolver) \<Rightarrow> token \<Rightarrow> attempt \<Rightarrow> attempt loopExit" where
  "ruleStep registry ruleToken st =
     (let inputToken = currentToken (inputTokens st) in
      if tok_type ruleToken = TT_WORD \<and> \<not> (tok_value ruleToken = inputToken)
      then Break st
      else if tok_type ruleToken \<noteq> TT_WORD
      then (case registry (tok_type ruleToken) of
              Some resolve \<Rightarrow>
                (let (parseResult, input') = resolve (inputTokens st) in
                 if \<not> truthy (error parseResult)
                 then Continue (st\<lparr>inputTokens := input',
                         actionParameters := actionParameters st @ [result parseResult]\<rparr>)
                 else Break (st\<lparr>inputTokens := input'\<rparr>))
            | None \<Rightarrow> Break st)
      else Continue (st\<lparr>inputTokens := snd (nextToken (inputTokens st))\<rparr>))"

lemma ruleStep_ruleTokens:
  "ruleStep registry ruleToken st = Continue st' \<Longrightarrow> ruleTokens st' = ruleTokens st"
  by (auto simp: ruleStep_def Let_def split: if_splits option.splits prod.splits)

text \<open>
  The \<^verbatim>\<open>while\<close> loop. A rule token that is \<^verbatim>\<open>undefined\<close> passes the loop condition and
  the read of its \<^verbatim>\<open>type\<close> throws.
\<close>

function walkRule :: "(string \<rightharpoonup> resolver) \<Rightarrow> attempt \<Rightarrow> jsError + attempt" where
  "walkRule registry st =
     (let st1 = st\<lparr>ruleTokens := snd (nextToken (ruleTokens st))\<rparr> in
      case currentToken (ruleTokens st1) of
        Null \<Rightarrow> Inr st1
      | Undefined \<Rightarrow> Inl TypeError
      | Val ruleToken \<Rightarrow>
          (case ruleStep registry ruleToken st1 of
             Break st2 \<Rightarrow> Inr st2
           | Continue st2 \<Rightarrow> walkRule registry st2))"
  by pat_completeness auto
termination
  by (relation "measure (\<lambda>(r, st).
        nat (int (length (tokens (ruleTokens st))) - index (ruleTokens st)))")
    (auto simp: currentToken_def nextToken_def Let_def
          dest!: ruleStep_ruleTokens split: if_splits)

text \<open>
  The test after the loop:
  \<^verbatim>\<open>ruleTokens.lookAhead() === null && inputTokens.currentToken() === null\<close>.
\<close>

definition ruleMatched :: "attempt \<Rightarrow> bool" where
  "ruleMatched st =
     (fst (lookAhead (ruleTokens st)) = Null \<and> currentToken (inputTokens st) = Null)"

text \<open>
  One pass of the loop over the rules, up to the end of the \<^verbatim>\<open>while\<close> loop: the input
  index is set to 1, the parameters are emptied, the rule is tokenized and walked.
\<close>

definition attemptRule ::
  "(string \<rightharpoonup> resolver) \<Rightarrow> string tokenList \<Rightarrow> string \<Rightarrow> jsError + attempt" where
  "attemptRule registry input rule =
     (case tokenizeRule rule of
        Inl e \<Rightarrow> Inl e
      | Inr ts \<Rightarrow>
          walkRule registry
            \<lparr>ruleTokens = TokenList ts, inputTokens = input\<lparr>index := 1\<rparr>,
             actionParameters = []\<rparr>)"

text \<open>
  The whole pass: \<open>Some v\<close> when the action was called and \<open>parse\<close> returns its value
  \<open>v\<close>, \<open>None\<close> when the loop goes on to the next rule. Every pass sets the input index
  before it reads it, so the input list is not threaded from one pass to the next.
\<close>

definition tryRule ::
  "(string \<rightharpoonup> resolver) \<Rightarrow> string tokenList \<Rightarrow> string \<times> action
    \<Rightarrow> jsError + val js option" where
  "tryRule registry input ruleAction =
     (case attemptRule registry input (fst ruleAction) of
        Inl e \<Rightarrow> Inl e
      | Inr st \<Rightarrow>
          if ruleMatched st
          then (case (snd ruleAction) (actionParameters st) of
                  Inl e \<Rightarrow> Inl e
                | Inr v \<Rightarrow> Inr (Some v))
          else Inr None)"

fun tryRules ::
  "(string \<rightharpoonup> resolver) \<Rightarrow> string tokenList \<Rightarrow> (string \<times> action) list
    \<Rightarrow> jsError + val js option" where
  "tryRules registry input [] = Inr None"
| "tryRules registry input (ruleAction # rest) =
     (case tryRule registry input ruleAction of
        Inl e \<Rightarrow> Inl e
      | Inr (Some v) \<Rightarrow> Inr (Some v)
      | Inr None \<Rightarrow> tryRules registry input rest)"

fun tryVerbs ::
  "(string \<rightharpoonup> resolver) \<Rightarrow> string tokenList \<Rightarrow> string js \<Rightarrow> verb list
    \<Rightarrow> jsError + val js option" where
  "tryVerbs registry input inputVerb [] = Inr None"
| "tryVerbs registry input inputVerb (v # vs) =
     (if arrayIncludes (verb_name v) inputVerb
      then (case tryRules registry input (ruleActionMap v) of
              Inl e \<Rightarrow> Inl e
            | Inr (Some r) \<Rightarrow> Inr (Some r)
            | Inr None \<Rightarrow> tryVerbs registry input inputVerb vs)
      else tryVerbs registry input inputVerb vs)"

text \<open>\<open>parse\<close> over a given verb list and resolver map.\<close>

definition parseWith ::
  "verb list \<Rightarrow> (string \<rightharpoonup> resolver) \<Rightarrow> string \<Rightarrow> jsError + val js" where
  "parseWith vs registry str =
     (let (inputVerb, input) = nextToken (TokenList (tokenizeInputString str)) in
      case tryVerbs registry input inputVerb vs of
        Inl e \<Rightarrow> Inl e
      | Inr (Some r) \<Rightarrow> Inr r
      | Inr None \<Rightarrow> Inr (Val (Str ''I don't understand.'')))"

definition parse :: "string \<Rightarrow> jsError + val js" where
  "parse = parseWith verbs tokenParsingFunctionMap"

section \<open>Reference notions for the properties\<close>

text \<open>
  The definitions of this section, named \<open>spec_\<dots>\<close>, are not part of the program: they
  state what the properties below compare the program with.

  The overlap of a name with the input from position \<open>i\<close>: the length of the longest
  run of words, starting at \<open>i\<close>, that are all members of the name. There is no word
  before the first one.
\<close>

definition spec_overlapRun :: "string list \<Rightarrow> string list \<Rightarrow> int \<Rightarrow> int" where
  "spec_overlapRun objectName ws i =
     (if i < 0 then 0
      else int (length (takeWhile (\<lambda>w. w \<in> set objectName) (drop (nat i) ws))))"

text \<open>The score of a candidate at the cursor, the best score (0 without a candidate)
  and the candidates that attain it, in the order of the list.\<close>

definition spec_candidateScore :: "gameObject \<Rightarrow> string tokenList \<Rightarrow> int" where
  "spec_candidateScore g input = spec_overlapRun (name g) (tokens input) (index input)"

definition spec_maxScore :: "gameObject list \<Rightarrow> string tokenList \<Rightarrow> int" where
  "spec_maxScore gs input = Max (set (0 # map (\<lambda>g. spec_candidateScore g input) gs))"

definition spec_topCandidates :: "gameObject list \<Rightarrow> string tokenList \<Rightarrow> gameObject list" where
  "spec_topCandidates gs input = filter (\<lambda>g. spec_candidateScore g input = spec_maxScore gs input) gs"

text \<open>
  A rule pattern as a list of segments: a quoted segment holds words, a bare segment is
  a symbol name. The pattern string writes a quoted segment between double quotes with
  single spaces between its words, and puts single spaces between the segments.
\<close>

datatype segment = Quoted "string list" | Bare string

fun spec_renderSegment :: "segment \<Rightarrow> string" where
  "spec_renderSegment (Quoted ws) = CHR 0x22 # join '' '' ws @ [CHR 0x22]"
| "spec_renderSegment (Bare s) = s"

definition spec_renderPattern :: "segment list \<Rightarrow> string" where
  "spec_renderPattern segs = join '' '' (map spec_renderSegment segs)"

fun spec_wellFormedSegment :: "segment \<Rightarrow> bool" where
  "spec_wellFormedSegment (Quoted ws) =
     (ws \<noteq> [] \<and> list_all (\<lambda>w. w \<noteq> [] \<and> list_all isLowerLetter w) ws)"
| "spec_wellFormedSegment (Bare s) =
     (s \<noteq> [] \<and> list_all (\<lambda>c. \<not> isSpace c) s \<and> hd s \<noteq> CHR 0x22)"

fun spec_segmentTokens :: "segment \<Rightarrow> token list" where
  "spec_segmentTokens (Quoted ws) = map (\<lambda>w. Token TT_WORD (Val w)) ws"
| "spec_segmentTokens (Bare s) = [Token s Null]"

section \<open>The input tokenizer\<close>

lemma trim_blank:
  assumes "list_all isSpace s"
  shows "trim s = []"
proof -
  from assms have d: "dropWhile isSpace s = []"
    by (simp add: list_all_iff)
  show ?thesis
    unfolding trim_def d by simp
qed

lemma splitOn_not_Nil: "splitOn sep s \<noteq> []"
  by (induction s) (auto split: list.splits)

lemma tokenizeInputString_not_Nil: "tokenizeInputString str \<noteq> []"
  by (simp add: tokenizeInputString_def splitOn_not_Nil)

lemma isSpace_lowerChar: "isSpace (lowerChar c) = isSpace c"
proof (cases "65 \<le> (of_char c :: nat) \<and> (of_char c :: nat) \<le> 90")
  case False
  then show ?thesis
    by (auto simp: lowerChar_def Let_def)
next
  case True
  then have "of_char (lowerChar c) = (of_char c :: nat) + 32"
    by (simp add: lowerChar_def Let_def)
  with True have "(of_char (lowerChar c) :: nat) \<ge> 97" "(of_char c :: nat) \<ge> 65"
    by auto
  then have "\<not> isSpace (lowerChar c)" "\<not> isSpace c"
    by (auto simp: isSpace_def)
  then show ?thesis
    by simp
qed

lemma last_dropWhile_eq: "dropWhile P xs \<noteq> [] \<Longrightarrow> last (dropWhile P xs) = last xs"
  by (metis last_appendR takeWhile_dropWhile_id)

lemma trim_edges:
  assumes "trim s \<noteq> []"
  shows "\<not> isSpace (hd (trim s)) \<and> \<not> isSpace (last (trim s))"
proof -
  let ?d = "dropWhile isSpace s"
  let ?e = "dropWhile isSpace (rev ?d)"
  from assms have e: "?e \<noteq> []"
    by (simp add: trim_def)
  then have d: "?d \<noteq> []"
    by (cases ?d) simp_all
  have "\<not> isSpace (hd ?e)"
    using e by (rule hd_dropWhile)
  then have l: "\<not> isSpace (last (trim s))"
    using e by (simp add: trim_def last_rev)
  have "last ?e = last (rev ?d)"
    using e by (rule last_dropWhile_eq)
  also have "\<dots> = hd ?d"
    using d by (simp add: last_rev)
  finally have "hd (trim s) = hd ?d"
    using e by (simp add: trim_def hd_rev)
  moreover have "\<not> isSpace (hd ?d)"
    using d by (rule hd_dropWhile)
  ultimately show ?thesis
    using l by simp
qed

lemma matchAlternative_suffix:
  "matchAlternative ws s = Some r \<Longrightarrow> r \<noteq> [] \<and> isSpace (hd r) \<and> (\<exists>p. s = p @ r)"
proof (induction ws)
  case Nil
  then show ?case
    by simp
next
  case (Cons w ws)
  show ?case
  proof (cases "take (length w) s = w \<and> drop (length w) s \<noteq> []
      \<and> isSpace (hd (drop (length w) s))")
    case True
    with Cons.prems have "r = drop (length w) s"
      by (simp add: Let_def)
    with True show ?thesis
      by (metis append_take_drop_id)
  next
    case False
    with Cons.prems have "matchAlternative ws s = Some r"
      by (auto simp: Let_def split: if_splits)
    then show ?thesis
      by (rule Cons.IH)
  qed
qed

lemma matchArticles_last:
  assumes "matchArticles s = Some r" "\<not> isSpace (last s)"
  shows "r \<noteq> [] \<and> last r = last s"
proof -
  from assms(1) obtain r' where s: "s \<noteq> []"
    and m: "matchAlternative ARTICLES (dropWhile isSpace s) = Some r'"
    and r: "r = dropWhile isSpace r'"
    by (auto simp: matchArticles_def split: if_splits option.splits)
  from matchAlternative_suffix[OF m] obtain p where r': "r' \<noteq> []"
    and p: "dropWhile isSpace s = p @ r'"
    by blast
  have "last (dropWhile isSpace s) = last s"
    using p r' by (intro last_dropWhile_eq) simp
  with p r' have l: "last r' = last s"
    by simp
  have "r \<noteq> []"
  proof
    assume "r = []"
    with r have "dropWhile isSpace r' = []"
      by simp
    then have "\<forall>x\<in>set r'. isSpace x"
      by (simp add: dropWhile_eq_Nil_conv)
    with r' have "isSpace (last r')"
      by simp
    with l assms(2) show False
      by simp
  qed
  moreover from this r have "last r = last r'"
    by (simp add: last_dropWhile_eq)
  ultimately show ?thesis
    using l by simp
qed

lemma replaceArticles_last:
  "s \<noteq> [] \<Longrightarrow> \<not> isSpace (last s) \<Longrightarrow>
   replaceArticles s \<noteq> [] \<and> last (replaceArticles s) = last s"
proof (induction s rule: replaceArticles.induct)
  case 1
  then show ?case
    by simp
next
  case (2 c cs)
  show ?case
  proof (cases "matchArticles (c # cs)")
    case None
    show ?thesis
    proof (cases cs)
      case Nil
      with None show ?thesis
        by simp
    next
      case (Cons d ds)
      with "2.prems" have "cs \<noteq> []" "\<not> isSpace (last cs)"
        by auto
      with "2.IH"(1)[OF None] None show ?thesis
        by (simp add: Cons)
    qed
  next
    case (Some r)
    from matchArticles_last[OF Some "2.prems"(2)]
    have r: "r \<noteq> []" "last r = last (c # cs)"
      by auto
    with "2.prems" have "\<not> isSpace (last r)"
      by simp
    with "2.IH"(2)[OF Some r(1)] Some r show ?thesis
      by simp
  qed
qed

lemma replaceArticles_hd:
  assumes "s \<noteq> []" "\<not> isSpace (hd s)"
  shows "hd (replaceArticles s) = hd s"
proof -
  from assms obtain c cs where s: "s = c # cs" and c: "\<not> isSpace c"
    by (cases s) auto
  then have "matchArticles (c # cs) = None"
    by (simp add: matchArticles_def)
  with s show ?thesis
    by simp
qed

lemma splitOn_collapseSpaces_words:
  "u \<noteq> [] \<Longrightarrow> \<not> isSpace (hd u) \<Longrightarrow> \<not> isSpace (last u) \<Longrightarrow>
   [] \<notin> set (splitOn CHR '' '' (collapseSpaces u))"
proof (induction u rule: length_induct)
  case (1 u)
  from "1.prems" obtain c cs where u: "u = c # cs" and c: "\<not> isSpace c"
    by (cases u) auto
  from c have csp: "c \<noteq> CHR '' ''"
    by (auto simp: isSpace_def)
  show ?case
  proof (cases cs)
    case Nil
    with c csp show ?thesis
      by (simp add: u)
  next
    case (Cons d ds)
    show ?thesis
    proof (cases "isSpace d")
      case False
      have "length cs < length u"
        by (simp add: u)
      moreover have "cs \<noteq> []" "\<not> isSpace (hd cs)" "\<not> isSpace (last cs)"
        using "1.prems" Cons False by (simp_all add: u)
      ultimately have "[] \<notin> set (splitOn CHR '' '' (collapseSpaces cs))"
        using "1.IH" by blast
      with c csp show ?thesis
        by (auto simp: u split: list.splits)
    next
      case True
      let ?r = "dropWhile isSpace ds"
      have r: "?r \<noteq> []"
      proof
        assume "?r = []"
        then have "\<forall>x\<in>set ds. isSpace x"
          by (simp add: dropWhile_eq_Nil_conv)
        with True have "\<forall>x\<in>set (d # ds). isSpace x"
          by simp
        then have "isSpace (last (d # ds))"
          using last_in_set[of "d # ds"] by blast
        with "1.prems" show False
          by (simp add: u Cons)
      qed
      then have "last ?r = last ds"
        by (rule last_dropWhile_eq)
      moreover from r have "ds \<noteq> []"
        by auto
      ultimately have l: "\<not> isSpace (last ?r)"
        using "1.prems" by (simp add: u Cons)
      have h: "\<not> isSpace (hd ?r)"
        using r by (rule hd_dropWhile)
      have "length ?r < length u"
        using length_dropWhile_le[of isSpace ds] by (simp add: u Cons)
      with "1.IH" r h l have "[] \<notin> set (splitOn CHR '' '' (collapseSpaces ?r))"
        by blast
      with c csp True show ?thesis
        by (simp add: u Cons)
    qed
  qed
qed

lemma tokenizeInputString_words:
  assumes "[] \<in> set (tokenizeInputString str)"
  shows "tokenizeInputString str = ['''']"
proof (cases "trim str = []")
  case True
  then show ?thesis
    by (simp add: tokenizeInputString_def toLowerCase_def)
next
  case False
  let ?l = "toLowerCase (trim str)"
  from trim_edges[OF False] False
  have l: "?l \<noteq> []" "\<not> isSpace (hd ?l)" "\<not> isSpace (last ?l)"
    by (simp_all add: toLowerCase_def hd_map last_map isSpace_lowerChar)
  from replaceArticles_last[OF l(1) l(3)] replaceArticles_hd[OF l(1) l(2)] l
  have "replaceArticles ?l \<noteq> []" "\<not> isSpace (hd (replaceArticles ?l))"
    "\<not> isSpace (last (replaceArticles ?l))"
    by simp_all
  then have "[] \<notin> set (tokenizeInputString str)"
    unfolding tokenizeInputString_def by (rule splitOn_collapseSpaces_words)
  with assms show ?thesis
    by simp
qed

lemma tokenizeInputString_after_verb:
  assumes "1 \<le> i"
  shows "[] \<notin> set (drop (nat i) (tokenizeInputString str))"
proof
  assume e: "[] \<in> set (drop (nat i) (tokenizeInputString str))"
  then have "[] \<in> set (tokenizeInputString str)"
    by (rule in_set_dropD)
  then have "tokenizeInputString str = ['''']"
    by (rule tokenizeInputString_words)
  with e assms show False
    by (cases "nat i") simp_all
qed

text \<open>
  Claim C6. An article is removed only where whitespace stands on both sides of it,
  and the match takes that whitespace with it: of two articles in a row the second one
  stays, and so does an article at the start or at the end of the input.
\<close>

theorem articles_left_in_place:
  "tokenizeInputString ''take the key'' = [''take'', ''key''] \<and>
   tokenizeInputString ''take the the key'' = [''take'', ''the'', ''key''] \<and>
   tokenizeInputString ''give a the key'' = [''give'', ''the'', ''key''] \<and>
   tokenizeInputString ''the key'' = [''the'', ''key''] \<and>
   tokenizeInputString ''take the'' = [''take'', ''the'']"
  by code_simp

text \<open>
  Claim C5. Normalizing is not idempotent: the tokens of \<^verbatim>\<open>'take the the key'\<close> still
  hold an article, and normalizing them again, joined by spaces, removes it.
\<close>

theorem normalize_twice_differs:
  "tokenizeInputString ''take the the key'' = [''take'', ''the'', ''key''] \<and>
   join '' '' (tokenizeInputString ''take the the key'') = ''take the key'' \<and>
   tokenizeInputString (join '' '' (tokenizeInputString ''take the the key''))
     = [''take'', ''key'']"
  by code_simp

section \<open>The rule tokenizer\<close>

lemma lower_not_special:
  assumes "isLowerLetter c"
  shows "c \<noteq> CHR 0x22" "\<not> isLineTerminator c" "\<not> isSpace c"
  using assms by (auto simp: isLowerLetter_def isLineTerminator_def isSpace_def)

lemma special_not_lower:
  "\<not> isLowerLetter CHR 0x22" "\<not> isLowerLetter CHR '' ''" "isSpace CHR '' ''"
  "\<not> isLineTerminator CHR '' ''" "\<not> isSpace CHR 0x22"
  by (simp_all add: isLowerLetter_def isSpace_def isLineTerminator_def)

lemma matchQuoted_other:
  assumes "s = [] \<or> hd s \<noteq> CHR 0x22"
  shows "matchQuoted s = None"
proof (cases s)
  case Nil
  then show ?thesis
    by simp
next
  case (Cons q r)
  with assms have q: "q \<noteq> CHR 0x22"
    by simp
  show ?thesis
  proof (cases r)
    case Nil
    then show ?thesis
      unfolding Cons by simp
  next
    case (Cons c cs)
    with q show ?thesis
      unfolding \<open>s = q # r\<close> by simp
  qed
qed

lemma matchRuleParts_space: "isSpace c \<Longrightarrow> matchRuleParts (c # r) = matchRuleParts r"
proof -
  assume c: "isSpace c"
  then have "c \<noteq> CHR 0x22"
    by (auto simp: isSpace_def)
  then have "matchQuoted (c # r) = None"
    by (simp add: matchQuoted_other)
  with c show ?thesis
    by simp
qed

lemma matchRuleParts_bare:
  assumes "s \<noteq> []" "list_all (\<lambda>c. \<not> isSpace c) s" "hd s \<noteq> CHR 0x22"
    and "rest = [] \<or> isSpace (hd rest)"
  shows "matchRuleParts (s @ rest) = s # matchRuleParts rest"
proof -
  from assms(1) obtain c cs where s: "s = c # cs"
    by (cases s) auto
  with assms have c: "\<not> isSpace c" and cs: "\<forall>x\<in>set cs. \<not> isSpace x"
    by (auto simp: list_all_iff)
  have q: "matchQuoted (c # cs @ rest) = None"
    using assms(3) s by (simp add: matchQuoted_other)
  have r: "takeWhile (\<lambda>x. \<not> isSpace x) rest = []" "dropWhile (\<lambda>x. \<not> isSpace x) rest = rest"
    using assms(4) by (cases rest; simp)+
  have "takeWhile (\<lambda>x. \<not> isSpace x) (c # cs @ rest) = c # cs"
    using c cs r by (simp add: takeWhile_append2)
  moreover have "dropWhile (\<lambda>x. \<not> isSpace x) (cs @ rest) = rest"
    using cs r by (simp add: dropWhile_append2)
  ultimately show ?thesis
    using q c by (simp add: s)
qed

lemma lazyUntilQuote_plain:
  "\<forall>c\<in>set xs. c \<noteq> CHR 0x22 \<and> \<not> isLineTerminator c \<Longrightarrow>
   lazyUntilQuote (xs @ CHR 0x22 # rest) = Some (xs @ [CHR 0x22], rest)"
  by (induction xs) auto

lemma join_words_chars:
  "list_all (\<lambda>w. w \<noteq> [] \<and> list_all isLowerLetter w) ws \<Longrightarrow>
   \<forall>c\<in>set (join '' '' ws). isLowerLetter c \<or> c = CHR '' ''"
  by (induction "'' ''" ws rule: join.induct) (auto simp: list_all_iff)

lemma join_words_hd:
  "ws \<noteq> [] \<Longrightarrow> list_all (\<lambda>w. w \<noteq> [] \<and> list_all isLowerLetter w) ws \<Longrightarrow>
   join '' '' ws \<noteq> [] \<and> isLowerLetter (hd (join '' '' ws))"
  by (induction "'' ''" ws rule: join.induct) (auto simp: list_all_iff hd_append)

lemma matchRuleParts_quoted:
  assumes "spec_wellFormedSegment (Quoted ws)"
  shows "matchRuleParts (spec_renderSegment (Quoted ws) @ rest)
           = spec_renderSegment (Quoted ws) # matchRuleParts rest"
proof -
  from assms join_words_hd[of ws] obtain b bs where body: "join '' '' ws = b # bs"
    and b: "isLowerLetter b"
    by (cases "join '' '' ws") auto
  from assms join_words_chars[of ws] body
  have chars: "\<forall>c\<in>set bs. isLowerLetter c \<or> c = CHR '' ''"
    by auto
  have "\<forall>c\<in>set bs. c \<noteq> CHR 0x22 \<and> \<not> isLineTerminator c"
  proof
    fix c
    assume "c \<in> set bs"
    with chars have "isLowerLetter c \<or> c = CHR '' ''"
      by blast
    then show "c \<noteq> CHR 0x22 \<and> \<not> isLineTerminator c"
    proof
      assume "isLowerLetter c"
      then show ?thesis
        by (simp add: lower_not_special)
    next
      assume "c = CHR '' ''"
      then show ?thesis
        by (simp add: special_not_lower)
    qed
  qed
  then have "lazyUntilQuote (bs @ CHR 0x22 # rest) = Some (bs @ [CHR 0x22], rest)"
    by (rule lazyUntilQuote_plain)
  then have "matchQuoted (CHR 0x22 # b # bs @ CHR 0x22 # rest)
               = Some (CHR 0x22 # b # bs @ [CHR 0x22], rest)"
    using lower_not_special(2)[OF b] by simp
  then show ?thesis
    by (simp add: body)
qed

lemma matchRuleParts_segment:
  assumes "spec_wellFormedSegment seg" "rest = [] \<or> isSpace (hd rest)"
  shows "matchRuleParts (spec_renderSegment seg @ rest) = spec_renderSegment seg # matchRuleParts rest"
proof (cases seg)
  case (Quoted ws)
  with assms(1) show ?thesis
    using matchRuleParts_quoted by simp
next
  case (Bare s)
  with assms show ?thesis
    using matchRuleParts_bare[of s rest] by simp
qed

lemma matchRuleParts_pattern:
  "list_all spec_wellFormedSegment segs \<Longrightarrow>
   matchRuleParts (spec_renderPattern segs) = map spec_renderSegment segs"
proof (induction segs)
  case Nil
  then show ?case
    by (simp add: spec_renderPattern_def)
next
  case (Cons seg segs)
  show ?case
  proof (cases segs)
    case Nil
    with Cons.prems matchRuleParts_segment[of seg "[]"] show ?thesis
      by (simp add: spec_renderPattern_def)
  next
    case (Cons seg' segs')
    have "spec_renderPattern (seg # segs) = spec_renderSegment seg @ CHR '' '' # spec_renderPattern segs"
      by (simp add: spec_renderPattern_def Cons)
    moreover have "matchRuleParts (spec_renderSegment seg @ CHR '' '' # spec_renderPattern segs)
        = spec_renderSegment seg # matchRuleParts (CHR '' '' # spec_renderPattern segs)"
      using Cons.prems by (intro matchRuleParts_segment) (simp_all add: special_not_lower)
    ultimately show ?thesis
      using Cons.IH Cons.prems
      by (simp add: matchRuleParts_space special_not_lower del: matchRuleParts.simps)
  qed
qed

lemma matchLowerWords_word:
  assumes "w \<noteq> []" "list_all isLowerLetter w" "\<not> isLowerLetter c"
  shows "matchLowerWords (w @ c # rest) = w # matchLowerWords rest"
proof -
  from assms(1) obtain a as where w: "w = a # as"
    by (cases w) auto
  with assms(2) have a: "isLowerLetter a" and as: "\<forall>x\<in>set as. isLowerLetter x"
    by (auto simp: list_all_iff)
  have "takeWhile isLowerLetter (as @ c # rest) = as"
    using as assms(3) by (simp add: takeWhile_append2)
  moreover have "dropWhile isLowerLetter (as @ c # rest) = c # rest"
    using as assms(3) by (simp add: dropWhile_append2)
  ultimately show ?thesis
    using a assms(3) by (simp add: w)
qed

lemma matchLowerWords_join:
  "list_all (\<lambda>w. w \<noteq> [] \<and> list_all isLowerLetter w) ws \<Longrightarrow>
   matchLowerWords (join '' '' ws @ [CHR 0x22]) = ws"
proof (induction "'' ''" ws rule: join.induct)
  case 1
  then show ?case
    by (simp add: special_not_lower)
next
  case (2 w)
  then show ?case
    using matchLowerWords_word[of w "CHR 0x22" "[]"] by (simp add: special_not_lower)
next
  case (3 w v ws)
  then show ?case
    using matchLowerWords_word[of w "CHR '' ''" "join '' '' (v # ws) @ [CHR 0x22]"]
    by (simp add: special_not_lower del: matchLowerWords.simps)
qed

lemma partTokens_segments:
  "list_all spec_wellFormedSegment segs \<Longrightarrow>
   partTokens (map spec_renderSegment segs) = Inr (concat (map spec_segmentTokens segs))"
proof (induction segs)
  case Nil
  then show ?case
    by simp
next
  case (Cons seg segs)
  show ?case
  proof (cases seg)
    case (Quoted ws)
    with Cons.prems have ws: "ws \<noteq> []"
      and wf: "list_all (\<lambda>w. w \<noteq> [] \<and> list_all isLowerLetter w) ws"
      by auto
    have "matchLowerWords (spec_renderSegment seg) = ws"
      using matchLowerWords_join[OF wf] by (simp add: Quoted special_not_lower)
    with ws Cons show ?thesis
      by (cases ws) (simp_all add: Quoted del: matchLowerWords.simps)
  next
    case (Bare s)
    with Cons show ?thesis
      by simp
  qed
qed

lemma tokenizeRule_segments:
  assumes "list_all spec_wellFormedSegment segs"
  shows "tokenizeRule (spec_renderPattern segs) = Inr (concat (map spec_segmentTokens segs))"
  using matchRuleParts_pattern[OF assms] partTokens_segments[OF assms]
  by (cases segs) (simp_all add: tokenizeRule_def)

lemma matchRuleParts_blank: "list_all isSpace s \<Longrightarrow> matchRuleParts s = []"
proof (induction s)
  case Nil
  show ?case
    by simp
next
  case (Cons c s)
  then show ?case
    by (simp add: matchRuleParts_space del: matchRuleParts.simps)
qed

text \<open>
  Claim C7. The empty pattern and every pattern of whitespace only compile to the
  empty token list, and \<^verbatim>\<open>'"up" single "on" single'\<close> compiles to the word \<open>up\<close>, the
  symbol \<open>single\<close>, the word \<open>on\<close> and the symbol \<open>single\<close>. In general, for segments
  joined by single spaces, where a quoted segment holds one or more words of lower-case
  letters and a bare segment is a non-empty run of non-whitespace that does not start
  with a double quote: every word of a quoted segment gives one token of type
  \<open>TT_WORD\<close> with the word as value, and every bare segment gives one token whose type
  is the segment and whose value is \<^verbatim>\<open>null\<close>.
\<close>

theorem tokenizeRule_compiles:
  \<open>tokenizeRule '''' = Inr [] \<and>
   (list_all isSpace blank \<longrightarrow> tokenizeRule blank = Inr []) \<and>
   tokenizeRule ''"up" single "on" single''
     = Inr [Token TT_WORD (Val ''up''), Token ''single'' Null,
            Token TT_WORD (Val ''on''), Token ''single'' Null] \<and>
   (list_all spec_wellFormedSegment segs \<longrightarrow>
      tokenizeRule (spec_renderPattern segs) = Inr (concat (map spec_segmentTokens segs)))\<close>
proof -
  have a: "tokenizeRule '''' = Inr []"
    by (simp add: tokenizeRule_def)
  have b: "list_all isSpace blank \<longrightarrow> tokenizeRule blank = Inr []"
    by (simp add: tokenizeRule_def matchRuleParts_blank)
  have c: \<open>tokenizeRule ''"up" single "on" single''
     = Inr [Token TT_WORD (Val ''up''), Token ''single'' Null,
            Token TT_WORD (Val ''on''), Token ''single'' Null]\<close>
    by code_simp
  from a b c tokenizeRule_segments show ?thesis
    by blast
qed

theorem tokenizeRule_compiles_witness:
  \<open>list_all isSpace [CHR 0x20, CHR 0x09] \<and>
   tokenizeRule [CHR 0x20, CHR 0x09] = Inr [] \<and>
   list_all spec_wellFormedSegment [Quoted [''possession'', ''of''], Bare ''single''] \<and>
   spec_renderPattern [Quoted [''possession'', ''of''], Bare ''single'']
     = ''"possession of" single'' \<and>
   tokenizeRule ''"possession of" single''
     = Inr [Token TT_WORD (Val ''possession''), Token TT_WORD (Val ''of''),
            Token ''single'' Null]\<close>
proof -
  have s: "list_all isSpace [CHR 0x20, CHR 0x09]"
    by (simp add: isSpace_def)
  have w: "list_all spec_wellFormedSegment [Quoted [''possession'', ''of''], Bare ''single'']"
    by code_simp
  have r: \<open>spec_renderPattern [Quoted [''possession'', ''of''], Bare ''single'']
     = ''"possession of" single''\<close>
    by code_simp
  have t: \<open>tokenizeRule ''"possession of" single''
     = Inr [Token TT_WORD (Val ''possession''), Token TT_WORD (Val ''of''),
            Token ''single'' Null]\<close>
    using tokenizeRule_compiles[of "[CHR 0x20, CHR 0x09]"
        "[Quoted [''possession'', ''of''], Bare ''single'']"] w
    unfolding r by simp
  from s w r t tokenizeRule_compiles[of "[CHR 0x20, CHR 0x09]" "[]"] show ?thesis
    by blast
qed

section \<open>The resolver of game objects\<close>

declare scoreLoop.simps [simp del]

lemma spec_overlapRun_nonneg: "0 \<le> spec_overlapRun nm ws i"
  by (simp add: spec_overlapRun_def)

lemma spec_overlapRun_step:
  assumes "0 \<le> i" "i < int (length ws)" "ws ! nat i \<in> set nm"
  shows "spec_overlapRun nm ws i = 1 + spec_overlapRun nm ws (i + 1)"
proof -
  from assms have "drop (nat i) ws = ws ! nat i # drop (nat (i + 1)) ws"
    by (simp add: Cons_nth_drop_Suc nat_add_distrib)
  with assms show ?thesis
    by (simp add: spec_overlapRun_def)
qed

lemma spec_overlapRun_stop:
  assumes "0 \<le> i" "i < int (length ws)" "ws ! nat i \<notin> set nm"
  shows "spec_overlapRun nm ws i = 0"
proof -
  from assms have "drop (nat i) ws = ws ! nat i # drop (Suc (nat i)) ws"
    by (simp add: Cons_nth_drop_Suc)
  with assms show ?thesis
    by (simp add: spec_overlapRun_def)
qed

lemma spec_overlapRun_end: "int (length ws) \<le> i \<Longrightarrow> spec_overlapRun nm ws i = 0"
  by (simp add: spec_overlapRun_def)

lemma spec_overlapRun_neg: "i < 0 \<Longrightarrow> spec_overlapRun nm ws i = 0"
  by (simp add: spec_overlapRun_def)

lemma scoreLoop_run:
  assumes "[] \<notin> set nm \<or> [] \<notin> set (drop (nat (index t)) (tokens t))"
  shows "scoreLoop nm t k =
           (k + spec_overlapRun nm (tokens t) (index t),
            t\<lparr>index := index t + spec_overlapRun nm (tokens t) (index t)\<rparr>)"
  using assms
proof (induction nm t k rule: scoreLoop.induct)
  case (1 nm t k)
  show ?case
  proof (cases "truthy (currentToken t) \<and> arrayIncludes nm (currentToken t)")
    case True
    then have b: "0 \<le> index t" "index t < int (length (tokens t))"
      and w: "tokens t ! nat (index t) \<in> set nm"
      by (auto simp: truthy_def arrayIncludes_def currentToken_def split: if_splits)
    have n: "snd (nextToken t) = t\<lparr>index := index t + 1\<rparr>"
      by (simp add: nextToken_def Let_def)
    have "set (drop (nat (index t + 1)) (tokens t)) \<subseteq> set (drop (nat (index t)) (tokens t))"
      by (rule set_drop_subset_set_drop) simp
    with "1.prems" have later:
      "[] \<notin> set nm \<or> [] \<notin> set (drop (nat (index t + 1)) (tokens t))"
      by blast
    from True later have
      "scoreLoop nm (snd (nextToken t)) (k + 1) =
         (k + 1 + spec_overlapRun nm (tokens (snd (nextToken t))) (index (snd (nextToken t))),
          (snd (nextToken t))\<lparr>index := index (snd (nextToken t))
              + spec_overlapRun nm (tokens (snd (nextToken t))) (index (snd (nextToken t)))\<rparr>)"
      by (intro "1.IH") (simp_all add: n)
    then have "scoreLoop nm (snd (nextToken t)) (k + 1) =
         (k + spec_overlapRun nm (tokens t) (index t),
          t\<lparr>index := index t + spec_overlapRun nm (tokens t) (index t)\<rparr>)"
      by (simp add: n spec_overlapRun_step[OF b w])
    with True show ?thesis
      by (subst scoreLoop.simps) simp
  next
    case False
    have z: "spec_overlapRun nm (tokens t) (index t) = 0"
    proof (cases "index t < 0 \<or> int (length (tokens t)) \<le> index t")
      case True
      then show ?thesis
        by (auto simp: spec_overlapRun_end spec_overlapRun_neg)
    next
      case inside: False
      then have b: "0 \<le> index t" "index t < int (length (tokens t))"
        by auto
      then have c: "currentToken t = Val (tokens t ! nat (index t))"
        by (simp add: currentToken_def)
      have m: "tokens t ! nat (index t) \<in> set (drop (nat (index t)) (tokens t))"
        using b by (simp add: Cons_nth_drop_Suc[symmetric])
      have "tokens t ! nat (index t) \<notin> set nm"
      proof (cases "tokens t ! nat (index t) = []")
        case True
        with m "1.prems" show ?thesis
          by auto
      next
        case False
        with \<open>\<not> (truthy (currentToken t) \<and> arrayIncludes nm (currentToken t))\<close> c
        show ?thesis
          by (simp add: truthy_def arrayIncludes_def)
      qed
      with b show ?thesis
        by (rule spec_overlapRun_stop)
    qed
    from False have "scoreLoop nm t k = (k, t)"
      by (subst scoreLoop.simps) auto
    with z show ?thesis
      by simp
  qed
qed

lemma Max_cons_step:
  fixes b s :: int
  shows "Max (set (b # s # ss)) = Max (set (max b s # ss))"
  unfolding Max.set_eq_fold by (simp add: max.commute)

lemma scoreObjects_closed:
  fixes ws :: "string list" and start :: int
  defines "sc \<equiv> \<lambda>g. spec_overlapRun (name g) ws start"
  assumes "tokens t = ws"
    and "(\<forall>g\<in>set gs. [] \<notin> set (name g)) \<or> [] \<notin> set (drop (nat start) ws)"
    and "0 \<le> bms"
  shows "\<exists>t'. tokens t' = ws \<and>
           scoreObjects start gs t bm bms =
             (t',
              (if Max (set (bms # map sc gs)) = bms then bm else [])
                @ map (\<lambda>g. (g, start + sc g))
                    (filter (\<lambda>g. sc g = Max (set (bms # map sc gs)) \<and> 0 < sc g) gs),
              Max (set (bms # map sc gs)))"
  using assms(2-)
proof (induction gs arbitrary: t bm bms)
  case Nil
  then show ?case
    by simp
next
  case (Cons g gs)
  let ?s = "sc g"
  let ?t1 = "t\<lparr>index := start + ?s\<rparr>"
  let ?M = "Max (set (bms # map sc (g # gs)))"
  have noempty: "[] \<notin> set (name g)
      \<or> [] \<notin> set (drop (nat (index (t\<lparr>index := start\<rparr>))) (tokens (t\<lparr>index := start\<rparr>)))"
    using Cons.prems by auto
  have loop: "scoreLoop (name g) (t\<lparr>index := start\<rparr>) 0 = (?s, ?t1)"
    using scoreLoop_run[OF noempty, of 0] Cons.prems(1) by (simp add: sc_def)
  have s0: "0 \<le> ?s"
    by (simp add: sc_def spec_overlapRun_nonneg)
  have rest: "(\<forall>g\<in>set gs. [] \<notin> set (name g)) \<or> [] \<notin> set (drop (nat start) ws)"
    using Cons.prems by auto
  have t1: "tokens ?t1 = ws"
    using Cons.prems by simp
  have M1: "?M = Max (set (max bms ?s # map sc gs))"
    by (simp only: list.map Max_cons_step)
  have Mb: "bms \<le> ?M"
    by (rule Max_ge) simp_all
  have Ms: "?s \<le> ?M"
    by (rule Max_ge) simp_all
  consider (eq) "0 < ?s" "?s = bms" | (gt) "bms < ?s" | (low) "?s \<le> 0 \<or> ?s < bms"
    by linarith
  then show ?case
  proof cases
    case eq
    from Cons.IH[OF t1 rest Cons.prems(3), of "bm @ [(g, start + ?s)]"]
    obtain t' where t': "tokens t' = ws"
      and r: "scoreObjects start gs ?t1 (bm @ [(g, start + ?s)]) bms =
             (t',
              (if Max (set (bms # map sc gs)) = bms then bm @ [(g, start + ?s)] else [])
                @ map (\<lambda>g. (g, start + sc g))
                    (filter (\<lambda>g. sc g = Max (set (bms # map sc gs)) \<and> 0 < sc g) gs),
              Max (set (bms # map sc gs)))"
      by blast
    have m: "Max (set (bms # map sc gs)) = ?M"
      using M1 eq by simp
    have "scoreObjects start (g # gs) t bm bms =
            scoreObjects start gs ?t1 (bm @ [(g, start + ?s)]) bms"
      using eq by (simp add: loop)
    with r t' eq Mb show ?thesis
      unfolding m by (intro exI[of _ t']) auto
  next
    case gt
    have b1: "0 \<le> ?s"
      by (rule s0)
    from Cons.IH[OF t1 rest b1, of "[(g, start + ?s)]"]
    obtain t' where t': "tokens t' = ws"
      and r: "scoreObjects start gs ?t1 [(g, start + ?s)] ?s =
             (t',
              (if Max (set (?s # map sc gs)) = ?s then [(g, start + ?s)] else [])
                @ map (\<lambda>g. (g, start + sc g))
                    (filter (\<lambda>g. sc g = Max (set (?s # map sc gs)) \<and> 0 < sc g) gs),
              Max (set (?s # map sc gs)))"
      by blast
    have m: "Max (set (?s # map sc gs)) = ?M"
      using M1 gt by (simp add: max_def)
    have pos: "0 < ?s"
      using gt Cons.prems(3) by linarith
    have "scoreObjects start (g # gs) t bm bms =
            scoreObjects start gs ?t1 [(g, start + ?s)] ?s"
      using gt pos by (simp add: loop)
    with r t' gt pos Ms show ?thesis
      unfolding m by (intro exI[of _ t']) auto
  next
    case low
    from Cons.IH[OF t1 rest Cons.prems(3), of bm]
    obtain t' where t': "tokens t' = ws"
      and r: "scoreObjects start gs ?t1 bm bms =
             (t',
              (if Max (set (bms # map sc gs)) = bms then bm else [])
                @ map (\<lambda>g. (g, start + sc g))
                    (filter (\<lambda>g. sc g = Max (set (bms # map sc gs)) \<and> 0 < sc g) gs),
              Max (set (bms # map sc gs)))"
      by blast
    have mx: "max bms ?s = bms"
      using low Cons.prems(3) s0 by (auto simp: max_def)
    have m: "Max (set (bms # map sc gs)) = ?M"
      using M1 mx by simp
    have "scoreObjects start (g # gs) t bm bms = scoreObjects start gs ?t1 bm bms"
      using low s0 Cons.prems(3) by (auto simp: loop)
    moreover have "\<not> (?s = ?M \<and> 0 < ?s)"
      using low Mb s0 by linarith
    ultimately show ?thesis
      using r t' unfolding m by (intro exI[of _ t']) auto
  qed
qed

lemma parseSingleIn_closed:
  assumes "(\<forall>g\<in>set gs. [] \<notin> set (name g))
      \<or> [] \<notin> set (drop (nat (index t)) (tokens t))"
  shows "\<exists>t'. tokens t' = tokens t \<and>
           parseSingleIn gs t =
             (if 0 < spec_maxScore gs t
              then (if length (spec_topCandidates gs t) = 1
                    then (\<lparr>result = Val (Obj (hd (spec_topCandidates gs t))), error = Null\<rparr>,
                          t\<lparr>index := index t + spec_maxScore gs t\<rparr>)
                    else (\<lparr>result = Null, error = Val ''multiple objects found''\<rparr>, t'))
              else (\<lparr>result = Null, error = Val ''no objects found''\<rparr>, t'))"
proof -
  let ?sc = "\<lambda>g. spec_overlapRun (name g) (tokens t) (index t)"
  have M: "Max (set (0 # map ?sc gs)) = spec_maxScore gs t"
    by (simp add: spec_maxScore_def spec_candidateScore_def)
  from scoreObjects_closed[OF refl assms order_refl, where bm = "[]"]
  obtain t' where t': "tokens t' = tokens t"
    and r0: "scoreObjects (index t) gs t [] 0 =
              (t',
               (if Max (set (0 # map ?sc gs)) = 0 then [] else [])
                 @ map (\<lambda>g. (g, index t + ?sc g))
                     (filter (\<lambda>g. ?sc g = Max (set (0 # map ?sc gs)) \<and> 0 < ?sc g) gs),
               Max (set (0 # map ?sc gs)))"
    by blast
  have r: "scoreObjects (index t) gs t [] 0 =
              (t',
               map (\<lambda>g. (g, index t + ?sc g))
                 (filter (\<lambda>g. ?sc g = spec_maxScore gs t \<and> 0 < ?sc g) gs),
               spec_maxScore gs t)"
    using r0 unfolding M by (simp only: if_cancel append_Nil)
  have sameIndex: "t'\<lparr>index := i\<rparr> = t\<lparr>index := i\<rparr>" for i
    using t' by (cases t, cases t') simp
  show ?thesis
  proof (cases "0 < spec_maxScore gs t")
    case False
    with r show ?thesis
      by (intro exI[of _ t']) (simp add: parseSingleIn_def t')
  next
    case True
    then have f: "filter (\<lambda>g. ?sc g = spec_maxScore gs t \<and> 0 < ?sc g) gs = spec_topCandidates gs t"
      unfolding spec_topCandidates_def spec_candidateScore_def
      by (intro filter_cong) auto
    note r' = r[unfolded f]
    show ?thesis
    proof (cases "length (spec_topCandidates gs t) = 1")
      case False
      with r' True show ?thesis
        by (intro exI[of _ t']) (simp add: parseSingleIn_def t')
    next
      case one: True
      then obtain g where g: "spec_topCandidates gs t = [g]"
        by (cases "spec_topCandidates gs t") auto
      then have "g \<in> set (spec_topCandidates gs t)"
        by simp
      then have sg: "?sc g = spec_maxScore gs t"
        by (simp add: spec_topCandidates_def spec_candidateScore_def)
      from r' True g sg t' show ?thesis
        by (intro exI[of _ t']) (simp add: parseSingleIn_def sameIndex)
    qed
  qed
qed

text \<open>
  The hypothesis of the theorem below is needed only off the paths of \<open>parse\<close>: the
  test of the \<^verbatim>\<open>while\<close> loop is falsy on the empty word, so an empty word under the
  cursor ends the run even when the name of the candidate holds the empty word.
\<close>

lemma scoreLoop_stops_at_empty_word:
  "scoreLoop [''''] \<lparr>tokens = [''''], index = 0\<rparr> 0 = (0, \<lparr>tokens = [''''], index = 0\<rparr>) \<and>
   spec_overlapRun [''''] [''''] 0 = 1"
  by code_simp

text \<open>
  Claim C3. Provided that no candidate has the empty word in its name, or that no word
  of the input at or after the cursor is empty (which holds at every cursor after the
  verb of every normalized input): \<open>parseSingle\<close> scores every candidate by the length of
  the run of input words from the cursor of the call that are members of its name (the
  index is set back to that cursor for each candidate). If the best score is positive
  and exactly one candidate attains it, that candidate is returned without an error and
  the index is moved past its run; if two or more candidates attain it, the result is
  \<^verbatim>\<open>null\<close> with the error \<^verbatim>\<open>'multiple objects found'\<close>; if the best score is 0, the result is
  \<^verbatim>\<open>null\<close> with the error \<^verbatim>\<open>'no objects found'\<close>.
\<close>

theorem parseSingle_selection:
  assumes "(\<forall>g\<in>set gs. [] \<notin> set (name g))
      \<or> [] \<notin> set (drop (nat (index t)) (tokens t))"
  shows "(\<forall>g\<in>set gs. scoreLoop (name g) t 0 =
            (spec_candidateScore g t, t\<lparr>index := index t + spec_candidateScore g t\<rparr>)) \<and>
         (0 < spec_maxScore gs t \<and> length (spec_topCandidates gs t) = 1 \<longrightarrow>
            parseSingleIn gs t =
              (\<lparr>result = Val (Obj (hd (spec_topCandidates gs t))), error = Null\<rparr>,
               t\<lparr>index := index t + spec_maxScore gs t\<rparr>)) \<and>
         (0 < spec_maxScore gs t \<and> 2 \<le> length (spec_topCandidates gs t) \<longrightarrow>
            fst (parseSingleIn gs t) =
              \<lparr>result = Null, error = Val ''multiple objects found''\<rparr>) \<and>
         (spec_maxScore gs t = 0 \<longrightarrow>
            fst (parseSingleIn gs t) = \<lparr>result = Null, error = Val ''no objects found''\<rparr>) \<and>
         0 \<le> spec_maxScore gs t \<and>
         tokens (snd (parseSingleIn gs t)) = tokens t \<and>
         (1 \<le> i \<longrightarrow> [] \<notin> set (drop (nat i) (tokenizeInputString str)))"
proof -
  have a: "\<forall>g\<in>set gs. scoreLoop (name g) t 0 =
            (spec_candidateScore g t, t\<lparr>index := index t + spec_candidateScore g t\<rparr>)"
  proof
    fix g
    assume "g \<in> set gs"
    with assms have "[] \<notin> set (name g) \<or> [] \<notin> set (drop (nat (index t)) (tokens t))"
      by auto
    from scoreLoop_run[OF this, of 0] show "scoreLoop (name g) t 0 =
            (spec_candidateScore g t, t\<lparr>index := index t + spec_candidateScore g t\<rparr>)"
      by (simp add: spec_candidateScore_def)
  qed
  from parseSingleIn_closed[OF assms] obtain t' where t': "tokens t' = tokens t"
    and p: "parseSingleIn gs t =
             (if 0 < spec_maxScore gs t
              then (if length (spec_topCandidates gs t) = 1
                    then (\<lparr>result = Val (Obj (hd (spec_topCandidates gs t))), error = Null\<rparr>,
                          t\<lparr>index := index t + spec_maxScore gs t\<rparr>)
                    else (\<lparr>result = Null, error = Val ''multiple objects found''\<rparr>, t'))
              else (\<lparr>result = Null, error = Val ''no objects found''\<rparr>, t'))"
    by blast
  have n: "0 \<le> spec_maxScore gs t"
    unfolding spec_maxScore_def by (rule Max_ge) simp_all
  have w: "1 \<le> i \<longrightarrow> [] \<notin> set (drop (nat i) (tokenizeInputString str))"
    using tokenizeInputString_after_verb by blast
  from a n w show ?thesis
    unfolding p using t' by simp
qed

theorem parseSingle_selection_witness:
  "list_all (\<lambda>g. [] \<notin> set (name g)) getGameObjectsFromCurrentRoom \<and>
   spec_maxScore getGameObjectsFromCurrentRoom
      \<lparr>tokens = [''give'', ''old'', ''man'', ''key''], index = 1\<rparr> = 2 \<and>
   spec_topCandidates getGameObjectsFromCurrentRoom
      \<lparr>tokens = [''give'', ''old'', ''man'', ''key''], index = 1\<rparr>
     = [GameObject [''old'', ''man'']] \<and>
   parseSingle \<lparr>tokens = [''give'', ''old'', ''man'', ''key''], index = 1\<rparr>
     = (\<lparr>result = Val (Obj (GameObject [''old'', ''man''])), error = Null\<rparr>,
        \<lparr>tokens = [''give'', ''old'', ''man'', ''key''], index = 3\<rparr>) \<and>
   spec_maxScore getGameObjectsFromCurrentRoom
      \<lparr>tokens = [''put'', ''crate'', ''on'', ''crate''], index = 1\<rparr> = 1 \<and>
   spec_topCandidates getGameObjectsFromCurrentRoom
      \<lparr>tokens = [''put'', ''crate'', ''on'', ''crate''], index = 1\<rparr>
     = [GameObject [''big'', ''crate''], GameObject [''small'', ''crate'']] \<and>
   fst (parseSingle \<lparr>tokens = [''put'', ''crate'', ''on'', ''crate''], index = 1\<rparr>)
     = \<lparr>result = Null, error = Val ''multiple objects found''\<rparr> \<and>
   spec_maxScore getGameObjectsFromCurrentRoom \<lparr>tokens = [''pick'', ''up''], index = 2\<rparr> = 0 \<and>
   fst (parseSingle \<lparr>tokens = [''pick'', ''up''], index = 2\<rparr>)
     = \<lparr>result = Null, error = Val ''no objects found''\<rparr> \<and>
   [] \<notin> set (drop (nat 1) (tokenizeInputString ''take rusty key'')) \<and>
   spec_maxScore [GameObject ['''', ''key''], GameObject [''rusty'', ''key'']]
      \<lparr>tokens = tokenizeInputString ''take rusty key'', index = 1\<rparr> = 2 \<and>
   spec_topCandidates [GameObject ['''', ''key''], GameObject [''rusty'', ''key'']]
      \<lparr>tokens = tokenizeInputString ''take rusty key'', index = 1\<rparr>
     = [GameObject [''rusty'', ''key'']] \<and>
   parseSingleIn [GameObject ['''', ''key''], GameObject [''rusty'', ''key'']]
      \<lparr>tokens = tokenizeInputString ''take rusty key'', index = 1\<rparr>
     = (\<lparr>result = Val (Obj (GameObject [''rusty'', ''key''])), error = Null\<rparr>,
        \<lparr>tokens = tokenizeInputString ''take rusty key'', index = 3\<rparr>)"
proof -
  have h: "list_all (\<lambda>g. [] \<notin> set (name g)) getGameObjectsFromCurrentRoom"
    by (simp add: getGameObjectsFromCurrentRoom_def)
  then have hyp: "(\<forall>g\<in>set getGameObjectsFromCurrentRoom. [] \<notin> set (name g))
      \<or> [] \<notin> set (drop (nat (index t)) (tokens t))" for t :: "string tokenList"
    by (simp add: list_all_iff)
  have m1: "spec_maxScore getGameObjectsFromCurrentRoom
      \<lparr>tokens = [''give'', ''old'', ''man'', ''key''], index = 1\<rparr> = 2"
    by code_simp
  have c1: "spec_topCandidates getGameObjectsFromCurrentRoom
      \<lparr>tokens = [''give'', ''old'', ''man'', ''key''], index = 1\<rparr>
     = [GameObject [''old'', ''man'']]"
    by code_simp
  have m2: "spec_maxScore getGameObjectsFromCurrentRoom
      \<lparr>tokens = [''put'', ''crate'', ''on'', ''crate''], index = 1\<rparr> = 1"
    by code_simp
  have c2: "spec_topCandidates getGameObjectsFromCurrentRoom
      \<lparr>tokens = [''put'', ''crate'', ''on'', ''crate''], index = 1\<rparr>
     = [GameObject [''big'', ''crate''], GameObject [''small'', ''crate'']]"
    by code_simp
  have m3: "spec_maxScore getGameObjectsFromCurrentRoom \<lparr>tokens = [''pick'', ''up''], index = 2\<rparr> = 0"
    by code_simp
  have p1: "parseSingle \<lparr>tokens = [''give'', ''old'', ''man'', ''key''], index = 1\<rparr>
     = (\<lparr>result = Val (Obj (GameObject [''old'', ''man''])), error = Null\<rparr>,
        \<lparr>tokens = [''give'', ''old'', ''man'', ''key''], index = 3\<rparr>)"
    using parseSingle_selection[OF hyp,
        of "\<lparr>tokens = [''give'', ''old'', ''man'', ''key''], index = 1\<rparr>"]
    unfolding parseSingle_def m1 c1 by simp
  have p2: "fst (parseSingle \<lparr>tokens = [''put'', ''crate'', ''on'', ''crate''], index = 1\<rparr>)
     = \<lparr>result = Null, error = Val ''multiple objects found''\<rparr>"
    using parseSingle_selection[OF hyp,
        of "\<lparr>tokens = [''put'', ''crate'', ''on'', ''crate''], index = 1\<rparr>"]
    unfolding parseSingle_def m2 c2 by simp
  have p3: "fst (parseSingle \<lparr>tokens = [''pick'', ''up''], index = 2\<rparr>)
     = \<lparr>result = Null, error = Val ''no objects found''\<rparr>"
    using parseSingle_selection[OF hyp, of "\<lparr>tokens = [''pick'', ''up''], index = 2\<rparr>"]
    unfolding parseSingle_def m3 by simp
  have e: "[] \<notin> set (drop (nat 1) (tokenizeInputString ''take rusty key''))"
    by code_simp
  then have hyp4: "(\<forall>g\<in>set [GameObject ['''', ''key''], GameObject [''rusty'', ''key'']].
        [] \<notin> set (name g))
      \<or> [] \<notin> set (drop (nat (index
            \<lparr>tokens = tokenizeInputString ''take rusty key'', index = 1\<rparr>))
          (tokens \<lparr>tokens = tokenizeInputString ''take rusty key'', index = 1\<rparr>))"
    by simp
  have m4: "spec_maxScore [GameObject ['''', ''key''], GameObject [''rusty'', ''key'']]
      \<lparr>tokens = tokenizeInputString ''take rusty key'', index = 1\<rparr> = 2"
    by code_simp
  have c4: "spec_topCandidates [GameObject ['''', ''key''], GameObject [''rusty'', ''key'']]
      \<lparr>tokens = tokenizeInputString ''take rusty key'', index = 1\<rparr>
     = [GameObject [''rusty'', ''key'']]"
    by code_simp
  have p4: "parseSingleIn [GameObject ['''', ''key''], GameObject [''rusty'', ''key'']]
      \<lparr>tokens = tokenizeInputString ''take rusty key'', index = 1\<rparr>
     = (\<lparr>result = Val (Obj (GameObject [''rusty'', ''key''])), error = Null\<rparr>,
        \<lparr>tokens = tokenizeInputString ''take rusty key'', index = 3\<rparr>)"
    using parseSingle_selection[OF hyp4] unfolding m4 c4 by simp
  from h m1 c1 p1 m2 c2 p2 m3 p3 e m4 c4 p4 show ?thesis
    by (simp only: simp_thms)
qed

text \<open>
  Claim C8. On \<^verbatim>\<open>'give old man key'\<close> with the rule \<^verbatim>\<open>'single single'\<close>: from index 1
  the old man scores 2 and the old rusty key scores 1, so the first symbol resolves to
  the old man and the input index moves from 1 to 3; from index 3 the old rusty key
  scores 1 and the old man 0, so the second symbol resolves to the old rusty key; the
  rule matches with these two objects, in this order, as parameters.
\<close>

theorem give_old_man_key:
  "tokenizeInputString ''give old man key'' = [''give'', ''old'', ''man'', ''key''] \<and>
   scoreLoop [''old'', ''man''] \<lparr>tokens = [''give'', ''old'', ''man'', ''key''], index = 1\<rparr> 0
     = (2, \<lparr>tokens = [''give'', ''old'', ''man'', ''key''], index = 3\<rparr>) \<and>
   scoreLoop [''old'', ''rusty'', ''key'']
       \<lparr>tokens = [''give'', ''old'', ''man'', ''key''], index = 1\<rparr> 0
     = (1, \<lparr>tokens = [''give'', ''old'', ''man'', ''key''], index = 2\<rparr>) \<and>
   parseSingle \<lparr>tokens = [''give'', ''old'', ''man'', ''key''], index = 1\<rparr>
     = (\<lparr>result = Val (Obj (GameObject [''old'', ''man''])), error = Null\<rparr>,
        \<lparr>tokens = [''give'', ''old'', ''man'', ''key''], index = 3\<rparr>) \<and>
   scoreLoop [''old'', ''rusty'', ''key'']
       \<lparr>tokens = [''give'', ''old'', ''man'', ''key''], index = 3\<rparr> 0
     = (1, \<lparr>tokens = [''give'', ''old'', ''man'', ''key''], index = 4\<rparr>) \<and>
   scoreLoop [''old'', ''man''] \<lparr>tokens = [''give'', ''old'', ''man'', ''key''], index = 3\<rparr> 0
     = (0, \<lparr>tokens = [''give'', ''old'', ''man'', ''key''], index = 3\<rparr>) \<and>
   parseSingle \<lparr>tokens = [''give'', ''old'', ''man'', ''key''], index = 3\<rparr>
     = (\<lparr>result = Val (Obj (GameObject [''old'', ''rusty'', ''key''])), error = Null\<rparr>,
        \<lparr>tokens = [''give'', ''old'', ''man'', ''key''], index = 4\<rparr>) \<and>
   attemptRule tokenParsingFunctionMap
       \<lparr>tokens = [''give'', ''old'', ''man'', ''key''], index = 0\<rparr> ''single single''
     = Inr
        \<lparr>ruleTokens = \<lparr>tokens = [Token ''single'' Null, Token ''single'' Null], index = 2\<rparr>,
         inputTokens = \<lparr>tokens = [''give'', ''old'', ''man'', ''key''], index = 4\<rparr>,
         actionParameters = [Val (Obj (GameObject [''old'', ''man''])),
                             Val (Obj (GameObject [''old'', ''rusty'', ''key'']))]\<rparr> \<and>
   ruleMatched
        \<lparr>ruleTokens = \<lparr>tokens = [Token ''single'' Null, Token ''single'' Null], index = 2\<rparr>,
         inputTokens = \<lparr>tokens = [''give'', ''old'', ''man'', ''key''], index = 4\<rparr>,
         actionParameters = [Val (Obj (GameObject [''old'', ''man''])),
                             Val (Obj (GameObject [''old'', ''rusty'', ''key'']))]\<rparr> \<and>
   parse ''give old man key'' = Inr (Val (Str ''You give the old rusty key to the old man''))"
  by code_simp

section \<open>The dispatch loops\<close>

lemma tryVerbs_no_verb:
  "\<forall>v\<in>set vs. \<not> arrayIncludes (verb_name v) inputVerb \<Longrightarrow>
   tryVerbs registry input inputVerb vs = Inr None"
  by (induction vs) auto

lemma tryRules_all_fail:
  "\<forall>ra\<in>set ras. tryRule registry input ra = Inr None \<Longrightarrow>
   tryRules registry input ras = Inr None"
  by (induction ras) auto

lemma tryVerbs_all_fail:
  "\<forall>v\<in>set vs. arrayIncludes (verb_name v) inputVerb \<longrightarrow>
     (\<forall>ra\<in>set (ruleActionMap v). tryRule registry input ra = Inr None) \<Longrightarrow>
   tryVerbs registry input inputVerb vs = Inr None"
  by (induction vs) (auto simp: tryRules_all_fail)

text \<open>
  Claim C10. For the empty string and for every string of whitespace only,
  \<open>tokenizeInputString\<close> returns the one-element list that holds the empty word (and
  it returns the empty list for no string at all); \<open>parse\<close> then takes the empty word
  as the verb, no verb of the table includes it, the loop over the verbs ends without
  returning the value of any action, and \<open>parse\<close> returns the not-understood string.
\<close>

theorem blank_input_not_understood:
  assumes "list_all isSpace str"
  shows "tokenizeInputString str = [''''] \<and>
         (\<forall>s. tokenizeInputString s \<noteq> []) \<and>
         fst (nextToken (TokenList (tokenizeInputString str))) = Val '''' \<and>
         (\<forall>v\<in>set verbs. \<not> arrayIncludes (verb_name v) (Val '''')) \<and>
         tryVerbs tokenParsingFunctionMap
            (snd (nextToken (TokenList (tokenizeInputString str)))) (Val '''') verbs
           = Inr None \<and>
         parse str = Inr (Val (Str ''I don't understand.''))"
proof -
  have t: "tokenizeInputString str = ['''']"
    using trim_blank[OF assms] by (simp add: tokenizeInputString_def toLowerCase_def)
  have k: "fst (nextToken (TokenList [''''])) = Val ''''"
    by (simp add: nextToken_def TokenList_def currentToken_def Let_def)
  have n: "\<forall>v\<in>set verbs. \<not> arrayIncludes (verb_name v) (Val '''')"
    by (simp add: verbs_def arrayIncludes_def)
  have v: "tryVerbs tokenParsingFunctionMap (snd (nextToken (TokenList ['''']))) (Val '''')
             verbs = Inr None"
    using n by (rule tryVerbs_no_verb)
  have v': "tryVerbs tokenParsingFunctionMap (snd (nextToken (TokenList [''''])))
              (fst (nextToken (TokenList ['''']))) verbs = Inr None"
    unfolding k by (rule v)
  have p: "parse str = Inr (Val (Str ''I don't understand.''))"
    unfolding parse_def parseWith_def t by (simp add: split_beta v')
  from k n v p tokenizeInputString_not_Nil show ?thesis
    unfolding t by blast
qed

theorem blank_input_not_understood_witness:
  "list_all isSpace [CHR 0x20, CHR 0x09, CHR 0x20] \<and>
   tokenizeInputString [CHR 0x20, CHR 0x09, CHR 0x20] = [''''] \<and>
   parse [CHR 0x20, CHR 0x09, CHR 0x20] = Inr (Val (Str ''I don't understand.'')) \<and>
   list_all isSpace '''' \<and>
   tokenizeInputString '''' = [''''] \<and>
   parse '''' = Inr (Val (Str ''I don't understand.''))"
proof -
  have h: "list_all isSpace [CHR 0x20, CHR 0x09, CHR 0x20]"
    by (simp add: isSpace_def)
  have e: "list_all isSpace ''''"
    by simp
  from blank_input_not_understood[OF h] blank_input_not_understood[OF e] h e
  show ?thesis
    by blast
qed

text \<open>
  Claim C9. When the first token of the normalized input is included in the synonyms
  of no verb, \<open>parse\<close> returns the not-understood string, whatever the rules and the
  resolvers are (no rule is tokenized or walked: the loop over the verbs passes every
  verb by); and when every pass over a rule of every verb that includes the first token
  ends without a match, \<open>parse\<close> returns that same string.
\<close>

theorem parse_not_understood:
  "((\<forall>v\<in>set vs. \<not> arrayIncludes (verb_name v)
        (fst (nextToken (TokenList (tokenizeInputString str)))))
      \<longrightarrow> parseWith vs registry str = Inr (Val (Str ''I don't understand.''))) \<and>
   ((\<forall>v\<in>set vs. arrayIncludes (verb_name v)
        (fst (nextToken (TokenList (tokenizeInputString str))))
        \<longrightarrow> (\<forall>ra\<in>set (ruleActionMap v).
               tryRule registry (snd (nextToken (TokenList (tokenizeInputString str)))) ra
                 = Inr None))
      \<longrightarrow> parseWith vs registry str = Inr (Val (Str ''I don't understand.'')))"
  by (auto simp: parseWith_def split_beta tryVerbs_no_verb tryVerbs_all_fail)

theorem parse_not_understood_witness:
  \<open>map (\<lambda>v. arrayIncludes (verb_name v)
          (fst (nextToken (TokenList (tokenizeInputString ''fly away''))))) verbs
     = [False, False, False, False, False] \<and>
   parse ''fly away'' = Inr (Val (Str ''I don't understand.'')) \<and>
   map (\<lambda>v. arrayIncludes (verb_name v)
          (fst (nextToken (TokenList (tokenizeInputString ''dance the ghillie callum'')))))
       verbs
     = [False, False, True, False, False] \<and>
   map (tryRule tokenParsingFunctionMap
          (snd (nextToken (TokenList (tokenizeInputString ''dance the ghillie callum'')))))
       (ruleActionMap (verbs ! 2))
     = [Inr None, Inr None] \<and>
   parse ''dance the ghillie callum'' = Inr (Val (Str ''I don't understand.'')) \<and>
   tokenizeRule ''"UP"'' = Inl TypeError \<and>
   parseWith [Verb [''go''] [(''"UP"'', actionDance)]] tokenParsingFunctionMap ''go''
     = Inl TypeError \<and>
   parseWith [Verb [''go''] [(''"UP"'', actionDance)]] tokenParsingFunctionMap ''fly away''
     = Inr (Val (Str ''I don't understand.''))\<close>
proof -
  have a: "\<forall>v\<in>set verbs. \<not> arrayIncludes (verb_name v)
       (fst (nextToken (TokenList (tokenizeInputString ''fly away''))))"
    by code_simp
  have b: "\<forall>v\<in>set verbs. arrayIncludes (verb_name v)
       (fst (nextToken (TokenList (tokenizeInputString ''dance the ghillie callum''))))
       \<longrightarrow> (\<forall>ra\<in>set (ruleActionMap v).
              tryRule tokenParsingFunctionMap
                (snd (nextToken (TokenList (tokenizeInputString ''dance the ghillie callum''))))
                ra = Inr None)"
    by code_simp
  have c: "map (\<lambda>v. arrayIncludes (verb_name v)
          (fst (nextToken (TokenList (tokenizeInputString ''fly away''))))) verbs
     = [False, False, False, False, False]"
    by code_simp
  have d: "map (\<lambda>v. arrayIncludes (verb_name v)
          (fst (nextToken (TokenList (tokenizeInputString ''dance the ghillie callum'')))))
       verbs
     = [False, False, True, False, False]"
    by code_simp
  have e: "map (tryRule tokenParsingFunctionMap
          (snd (nextToken (TokenList (tokenizeInputString ''dance the ghillie callum'')))))
       (ruleActionMap (verbs ! 2))
     = [Inr None, Inr None]"
    by code_simp
  have f: \<open>tokenizeRule ''"UP"'' = Inl TypeError \<and>
      parseWith [Verb [''go''] [(''"UP"'', actionDance)]] tokenParsingFunctionMap ''go''
        = Inl TypeError\<close>
    by code_simp
  have g: \<open>\<forall>v\<in>set [Verb [''go''] [(''"UP"'', actionDance)]]. \<not> arrayIncludes (verb_name v)
       (fst (nextToken (TokenList (tokenizeInputString ''fly away''))))\<close>
    by code_simp
  from a b c d e f g
    parse_not_understood[of verbs "''fly away''" tokenParsingFunctionMap]
    parse_not_understood[of verbs "''dance the ghillie callum''" tokenParsingFunctionMap]
    parse_not_understood[of \<open>[Verb [''go''] [(''"UP"'', actionDance)]]\<close> "''fly away''"
      tokenParsingFunctionMap]
  show ?thesis
    unfolding parse_def by blast
qed

text \<open>
  Claim C1. On \<^verbatim>\<open>'pick up'\<close> the pass over the rule \<^verbatim>\<open>'"up" single'\<close> reaches the
  symbol \<open>single\<close> with the input used up; \<open>parseSingle\<close> returns the error
  \<^verbatim>\<open>'no objects found'\<close> and the loop is left by \<^verbatim>\<open>break\<close>, with the rule index on
  that last token. The test after the loop looks one token ahead, finds \<^verbatim>\<open>null\<close> on both
  lists and takes the rule as matched: the bound action is called with an empty
  parameter list, whatever the action is.
\<close>

theorem failed_step_calls_action:
  \<open>tokenizeInputString ''pick up'' = [''pick'', ''up''] \<and>
   tokenizeRule ''"up" single'' = Inr [Token TT_WORD (Val ''up''), Token ''single'' Null] \<and>
   parseSingle \<lparr>tokens = [''pick'', ''up''], index = 2\<rparr>
     = (\<lparr>result = Null, error = Val ''no objects found''\<rparr>,
        \<lparr>tokens = [''pick'', ''up''], index = 2\<rparr>) \<and>
   ruleStep tokenParsingFunctionMap (Token ''single'' Null)
      \<lparr>ruleTokens = \<lparr>tokens = [Token TT_WORD (Val ''up''), Token ''single'' Null], index = 1\<rparr>,
       inputTokens = \<lparr>tokens = [''pick'', ''up''], index = 2\<rparr>,
       actionParameters = []\<rparr>
     = Break
      \<lparr>ruleTokens = \<lparr>tokens = [Token TT_WORD (Val ''up''), Token ''single'' Null], index = 1\<rparr>,
       inputTokens = \<lparr>tokens = [''pick'', ''up''], index = 2\<rparr>,
       actionParameters = []\<rparr> \<and>
   attemptRule tokenParsingFunctionMap \<lparr>tokens = [''pick'', ''up''], index = 0\<rparr>
      ''"up" single''
     = Inr
      \<lparr>ruleTokens = \<lparr>tokens = [Token TT_WORD (Val ''up''), Token ''single'' Null], index = 1\<rparr>,
       inputTokens = \<lparr>tokens = [''pick'', ''up''], index = 2\<rparr>,
       actionParameters = []\<rparr> \<and>
   ruleMatched
      \<lparr>ruleTokens = \<lparr>tokens = [Token TT_WORD (Val ''up''), Token ''single'' Null], index = 1\<rparr>,
       inputTokens = \<lparr>tokens = [''pick'', ''up''], index = 2\<rparr>,
       actionParameters = []\<rparr> \<and>
   (\<forall>action. tryRule tokenParsingFunctionMap \<lparr>tokens = [''pick'', ''up''], index = 0\<rparr>
        (''"up" single'', action)
      = (case action [] of Inl e \<Rightarrow> Inl e | Inr v \<Rightarrow> Inr (Some v))) \<and>
   actionTake [] = Inl TypeError\<close>
proof -
  have a: \<open>attemptRule tokenParsingFunctionMap \<lparr>tokens = [''pick'', ''up''], index = 0\<rparr>
      ''"up" single''
     = Inr
      \<lparr>ruleTokens = \<lparr>tokens = [Token TT_WORD (Val ''up''), Token ''single'' Null], index = 1\<rparr>,
       inputTokens = \<lparr>tokens = [''pick'', ''up''], index = 2\<rparr>,
       actionParameters = []\<rparr>\<close>
    by code_simp
  have m: \<open>ruleMatched
      \<lparr>ruleTokens = \<lparr>tokens = [Token TT_WORD (Val ''up''), Token ''single'' Null], index = 1\<rparr>,
       inputTokens = \<lparr>tokens = [''pick'', ''up''], index = 2\<rparr>,
       actionParameters = []\<rparr>\<close>
    by code_simp
  have t: \<open>\<forall>action. tryRule tokenParsingFunctionMap \<lparr>tokens = [''pick'', ''up''], index = 0\<rparr>
        (''"up" single'', action)
      = (case action [] of Inl e \<Rightarrow> Inl e | Inr v \<Rightarrow> Inr (Some v))\<close>
    unfolding tryRule_def fst_conv snd_conv a using m by simp
  have r: \<open>tokenizeInputString ''pick up'' = [''pick'', ''up''] \<and>
   tokenizeRule ''"up" single'' = Inr [Token TT_WORD (Val ''up''), Token ''single'' Null] \<and>
   parseSingle \<lparr>tokens = [''pick'', ''up''], index = 2\<rparr>
     = (\<lparr>result = Null, error = Val ''no objects found''\<rparr>,
        \<lparr>tokens = [''pick'', ''up''], index = 2\<rparr>) \<and>
   ruleStep tokenParsingFunctionMap (Token ''single'' Null)
      \<lparr>ruleTokens = \<lparr>tokens = [Token TT_WORD (Val ''up''), Token ''single'' Null], index = 1\<rparr>,
       inputTokens = \<lparr>tokens = [''pick'', ''up''], index = 2\<rparr>,
       actionParameters = []\<rparr>
     = Break
      \<lparr>ruleTokens = \<lparr>tokens = [Token TT_WORD (Val ''up''), Token ''single'' Null], index = 1\<rparr>,
       inputTokens = \<lparr>tokens = [''pick'', ''up''], index = 2\<rparr>,
       actionParameters = []\<rparr> \<and>
   actionTake [] = Inl TypeError\<close>
    by code_simp
  from a m t r show ?thesis
    by blast
qed

text \<open>
  Claim C2. \<open>parse\<close> does not return for every input: on \<^verbatim>\<open>'pick up'\<close> the rule
  \<^verbatim>\<open>'"up" single'\<close> is taken as matched although \<open>parseSingle\<close> found no object, the
  action \<open>actionTake\<close> is called without a parameter and the read of \<^verbatim>\<open>object.name\<close>
  throws a \<open>TypeError\<close>, which \<open>parse\<close> does not catch. The same happens on
  \<^verbatim>\<open>'give desk crate'\<close>, \<^verbatim>\<open>'put desk on'\<close> and \<^verbatim>\<open>'gain possession of'\<close>.
\<close>

theorem parse_throws:
  "parse ''pick up'' = Inl TypeError \<and>
   parse ''give desk crate'' = Inl TypeError \<and>
   parse ''put desk on'' = Inl TypeError \<and>
   parse ''gain possession of'' = Inl TypeError"
  by code_simp

text \<open>
  Claim C4. The rule \<^verbatim>\<open>'"up" single'\<close> consumes the whole of \<^verbatim>\<open>'pick up desk'\<close> and
  matches it with the desk as parameter. On the truncated input \<^verbatim>\<open>'pick up'\<close> the
  pass ends with the rule index on the token \<open>single\<close>, which no input was matched
  against, and the rule is taken as matched all the same; on the extended input
  \<^verbatim>\<open>'pick up desk on'\<close> it is not.
\<close>

theorem truncated_input_matches:
  \<open>attemptRule tokenParsingFunctionMap \<lparr>tokens = tokenizeInputString ''pick up desk'', index = 0\<rparr>
      ''"up" single''
     = Inr
      \<lparr>ruleTokens = \<lparr>tokens = [Token TT_WORD (Val ''up''), Token ''single'' Null], index = 2\<rparr>,
       inputTokens = \<lparr>tokens = [''pick'', ''up'', ''desk''], index = 3\<rparr>,
       actionParameters = [Val (Obj (GameObject [''desk'']))]\<rparr> \<and>
   attemptRule tokenParsingFunctionMap \<lparr>tokens = tokenizeInputString ''pick up'', index = 0\<rparr>
      ''"up" single''
     = Inr
      \<lparr>ruleTokens = \<lparr>tokens = [Token TT_WORD (Val ''up''), Token ''single'' Null], index = 1\<rparr>,
       inputTokens = \<lparr>tokens = [''pick'', ''up''], index = 2\<rparr>,
       actionParameters = []\<rparr> \<and>
   currentToken \<lparr>tokens = [Token TT_WORD (Val ''up''), Token ''single'' Null], index = 1\<rparr>
     = Val (Token ''single'' Null) \<and>
   ruleMatched
      \<lparr>ruleTokens = \<lparr>tokens = [Token TT_WORD (Val ''up''), Token ''single'' Null], index = 1\<rparr>,
       inputTokens = \<lparr>tokens = [''pick'', ''up''], index = 2\<rparr>,
       actionParameters = []\<rparr> \<and>
   tryRule tokenParsingFunctionMap \<lparr>tokens = tokenizeInputString ''pick up'', index = 0\<rparr>
      (''"up" single'', actionTake) = Inl TypeError \<and>
   tryRule tokenParsingFunctionMap \<lparr>tokens = tokenizeInputString ''pick up desk on'', index = 0\<rparr>
      (''"up" single'', actionTake) = Inr None\<close>
  by code_simp

end
